theory Spec2Isabelle
  imports Main "HOL-Library.Sublist"
begin

section \<open>Text\<close>

text \<open>
  A JavaScript string is a sequence of 16-bit code units. It is modelled by the
  \<^typ>\<open>string\<close> that writes every code unit in the one-, two- or three-byte form of
  UTF-8, so ASCII text is itself, concatenation of strings is concatenation of lists, and
  a search for ASCII text (\<open>includes\<close>, \<open>startsWith\<close>, \<open>split\<close>) is the same search on
  the bytes.
\<close>

definition newline :: char where
  "newline = CHR 0x0A"

text \<open>\<open>s.split('\n')\<close>: the pieces between newlines; the empty text gives one empty piece.\<close>

fun split_nl :: "string \<Rightarrow> string list" where
  "split_nl [] = [[]]"
| "split_nl (c # cs) =
     (if c = newline then [] # split_nl cs
      else (case split_nl cs of [] \<Rightarrow> [[c]] | l # ls \<Rightarrow> (c # l) # ls))"

text \<open>\<open>xs.join(sep)\<close>.\<close>

fun join :: "string \<Rightarrow> string list \<Rightarrow> string" where
  "join sep [] = []"
| "join sep [x] = x"
| "join sep (x # y # ys) = x @ sep @ join sep (y # ys)"

text \<open>Decimal rendering of an integer, as a template literal renders a number.\<close>

definition digit_char :: "nat \<Rightarrow> char" where
  "digit_char d = char_of (48 + d)"

fun show_nat :: "nat \<Rightarrow> string" where
  "show_nat n = (if n < 10 then [digit_char n] else show_nat (n div 10) @ [digit_char (n mod 10)])"

declare show_nat.simps [simp del]

definition show_int :: "int \<Rightarrow> string" where
  "show_int i = (if i < 0 then CHR ''-'' # show_nat (nat (- i)) else show_nat (nat i))"

text \<open>
  White space of \<open>String.prototype.trim\<close> and of \<open>\s\<close>: the code points 9 to 13, 32,
  U+00A0, U+1680, U+2000 to U+200A, U+2028, U+2029, U+202F, U+205F, U+3000 and U+FEFF,
  each in its encoded form. \<open>ws_prefix s\<close> is the length of the white-space code unit
  that \<open>s\<close> starts with, if any.
\<close>

definition ws_units :: "string list" where
  "ws_units =
     [[CHR 0x09], [CHR 0x0A], [CHR 0x0B], [CHR 0x0C], [CHR 0x0D], [CHR 0x20],
      [CHR 0xC2, CHR 0xA0], [CHR 0xE1, CHR 0x9A, CHR 0x80],
      [CHR 0xE2, CHR 0x80, CHR 0x80], [CHR 0xE2, CHR 0x80, CHR 0x81],
      [CHR 0xE2, CHR 0x80, CHR 0x82], [CHR 0xE2, CHR 0x80, CHR 0x83],
      [CHR 0xE2, CHR 0x80, CHR 0x84], [CHR 0xE2, CHR 0x80, CHR 0x85],
      [CHR 0xE2, CHR 0x80, CHR 0x86], [CHR 0xE2, CHR 0x80, CHR 0x87],
      [CHR 0xE2, CHR 0x80, CHR 0x88], [CHR 0xE2, CHR 0x80, CHR 0x89],
      [CHR 0xE2, CHR 0x80, CHR 0x8A], [CHR 0xE2, CHR 0x80, CHR 0xA8],
      [CHR 0xE2, CHR 0x80, CHR 0xA9], [CHR 0xE2, CHR 0x80, CHR 0xAF],
      [CHR 0xE2, CHR 0x81, CHR 0x9F], [CHR 0xE3, CHR 0x80, CHR 0x80],
      [CHR 0xEF, CHR 0xBB, CHR 0xBF]]"

definition ws_prefix :: "string \<Rightarrow> nat option" where
  "ws_prefix s = map_option length (find (\<lambda>w. prefix w s) ws_units)"

definition ws_suffix :: "string \<Rightarrow> nat option" where
  "ws_suffix s = map_option length (find (\<lambda>w. suffix w s) ws_units)"

function trimStart :: "string \<Rightarrow> string" where
  "trimStart s =
     (case ws_prefix s of
        None \<Rightarrow> s
      | Some n \<Rightarrow> if 0 < n \<and> n \<le> length s then trimStart (drop n s) else s)"
  by pat_completeness auto
termination
  by (relation "measure length") auto

declare trimStart.simps [simp del]

function trimEnd :: "string \<Rightarrow> string" where
  "trimEnd s =
     (case ws_suffix s of
        None \<Rightarrow> s
      | Some n \<Rightarrow> if 0 < n \<and> n \<le> length s then trimEnd (take (length s - n) s) else s)"
  by pat_completeness auto
termination
  by (relation "measure length") auto

declare trimEnd.simps [simp del]

definition trim :: "string \<Rightarrow> string" where
  "trim s = trimEnd (trimStart s)"

section \<open>Command history (addToCommandHistory, formatCommandHistoryForAI)\<close>

record CommandResult =
  command :: string
  exitCode :: int
  stdout :: string
  stderr :: string
  timestamp :: int

definition MAX_HISTORY_SIZE :: nat where
  "MAX_HISTORY_SIZE = 5"

text \<open>
  The module variable \<open>commandHistory\<close> is passed and returned. \<open>unshift\<close> puts the
  result in front, \<open>pop\<close> removes the last element.
\<close>

definition addToCommandHistory :: "CommandResult list \<Rightarrow> CommandResult \<Rightarrow> CommandResult list" where
  "addToCommandHistory commandHistory result =
     (let h = result # commandHistory
      in if length h > MAX_HISTORY_SIZE then butlast h else h)"

definition getCommandHistory :: "CommandResult list \<Rightarrow> CommandResult list" where
  "getCommandHistory commandHistory = commandHistory"

definition clearCommandHistory :: "CommandResult list \<Rightarrow> CommandResult list" where
  "clearCommandHistory commandHistory = []"

text \<open>\<open>lines.slice(-k)\<close>: the last \<open>k\<close> elements; \<open>slice(-0)\<close> is \<open>slice(0)\<close>, the whole array.\<close>

definition slice_last :: "nat \<Rightarrow> 'a list \<Rightarrow> 'a list" where
  "slice_last k xs = (if k = 0 then xs else drop (length xs - k) xs)"

definition trimOutput :: "string \<Rightarrow> nat \<Rightarrow> string" where
  "trimOutput output maxLines =
     (let lines = split_nl output
      in if length lines \<le> maxLines then output
         else
           (let halfMax = maxLines div 2;
                firstHalf = take halfMax lines;
                secondHalf = slice_last halfMax lines
            in join [newline]
                 (firstHalf
                  @ [''... ('' @ show_nat (length lines - maxLines) @ '' more lines) ...'']
                  @ secondHalf)))"

text \<open>The check mark U+2713 and the ballot cross U+2717.\<close>

definition check_mark :: string where
  "check_mark = [CHR 0xE2, CHR 0x9C, CHR 0x93]"

definition ballot_x :: string where
  "ballot_x = [CHR 0xE2, CHR 0x9C, CHR 0x97]"

definition backticks :: string where
  "backticks = [CHR 0x60, CHR 0x60, CHR 0x60]"

text \<open>
  One entry of the formatted history. \<open>toLocaleTimeString\<close> depends on the locale of the
  host, so the rendering of a timestamp is the parameter \<open>timeString\<close>. \<open>n\<close> is
  \<open>commandHistory.length\<close> and \<open>index\<close> the position of the entry.
\<close>

definition formatEntry :: "(int \<Rightarrow> string) \<Rightarrow> nat \<Rightarrow> nat \<Rightarrow> CommandResult \<Rightarrow> string" where
  "formatEntry timeString n index result =
     (let date = timeString (timestamp result);
          commandNumber = n - index;
          statusIndicator = (if exitCode result = 0 then check_mark else ballot_x);
          output = ''## Command '' @ show_nat commandNumber @ '' ['' @ date @ ''] ''
                   @ statusIndicator @ [newline];
          output = output @ backticks @ ''bash'' @ [newline] @ ''$ '' @ command result
                   @ [newline] @ backticks @ [newline];
          output = output @ ''Exit code: '' @ show_int (exitCode result) @ [newline];
          output = (if stdout result \<noteq> [] \<and> trim (stdout result) \<noteq> []
                    then output @ [newline] @ ''Output:'' @ [newline] @ backticks @ [newline]
                         @ trimOutput (stdout result) 15 @ [newline] @ backticks @ [newline]
                    else output);
          output = (if stderr result \<noteq> [] \<and> trim (stderr result) \<noteq> []
                    then output @ [newline] @ ''Error:'' @ [newline] @ backticks @ [newline]
                         @ trimOutput (stderr result) 15 @ [newline] @ backticks @ [newline]
                    else output)
      in output)"

definition formatCommandHistoryForAI :: "(int \<Rightarrow> string) \<Rightarrow> CommandResult list \<Rightarrow> string" where
  "formatCommandHistoryForAI timeString commandHistory =
     (if length commandHistory = 0 then ''No command history available.''
      else join [newline]
             (map (\<lambda>(index, result). formatEntry timeString (length commandHistory) index result)
                (zip [0 ..< length commandHistory] commandHistory)))"

section \<open>JSON\<close>

text \<open>
  \<open>JSON.parse\<close> belongs to the JavaScript runtime. It is written out here after the
  JSON grammar (ECMA-404), so that the decoder can be run on concrete frames: values,
  arrays, objects, strings with their escapes, numbers and the three literals. A number
  keeps its lexeme.
\<close>

datatype json =
    JNull
  | JBool bool
  | JNum string
  | JStr string
  | JArr "json list"
  | JObj "(string \<times> json) list"

definition is_json_ws :: "char \<Rightarrow> bool" where
  "is_json_ws c = (c = CHR 0x20 \<or> c = CHR 0x09 \<or> c = CHR 0x0A \<or> c = CHR 0x0D)"

definition skip_ws :: "string \<Rightarrow> string" where
  "skip_ws s = dropWhile is_json_ws s"

definition is_digit :: "char \<Rightarrow> bool" where
  "is_digit c = (let n = (of_char c :: nat) in 48 \<le> n \<and> n \<le> 57)"

definition hex_val :: "char \<Rightarrow> nat option" where
  "hex_val c =
     (let n = (of_char c :: nat)
      in if 48 \<le> n \<and> n \<le> 57 then Some (n - 48)
         else if 65 \<le> n \<and> n \<le> 70 then Some (n - 55)
         else if 97 \<le> n \<and> n \<le> 102 then Some (n - 87)
         else None)"

definition hex4 :: "char \<Rightarrow> char \<Rightarrow> char \<Rightarrow> char \<Rightarrow> nat option" where
  "hex4 a b c d =
     (case (hex_val a, hex_val b, hex_val c, hex_val d) of
        (Some w, Some x, Some y, Some z) \<Rightarrow> Some (4096 * w + 256 * x + 16 * y + z)
      | _ \<Rightarrow> None)"

text \<open>One code unit in its encoded form.\<close>

definition encode_unit :: "nat \<Rightarrow> string" where
  "encode_unit u =
     (if u < 128 then [char_of u]
      else if u < 2048 then [char_of (192 + u div 64), char_of (128 + u mod 64)]
      else [char_of (224 + u div 4096), char_of (128 + (u div 64) mod 64),
            char_of (128 + u mod 64)])"

definition escape_char :: "char \<Rightarrow> char option" where
  "escape_char e =
     (if e = CHR 0x22 then Some (CHR 0x22)
      else if e = CHR 0x5C then Some (CHR 0x5C)
      else if e = CHR ''/'' then Some (CHR ''/'')
      else if e = CHR ''b'' then Some (CHR 0x08)
      else if e = CHR ''f'' then Some (CHR 0x0C)
      else if e = CHR ''n'' then Some (CHR 0x0A)
      else if e = CHR ''r'' then Some (CHR 0x0D)
      else if e = CHR ''t'' then Some (CHR 0x09)
      else None)"

text \<open>The characters of a string after its opening quote, up to the closing one.\<close>

fun parse_chars :: "string \<Rightarrow> (string \<times> string) option" where
  "parse_chars [] = None"
| "parse_chars (c # cs) =
     (if c = CHR 0x22 then Some ([], cs)
      else if c = CHR 0x5C then
        (case cs of
           [] \<Rightarrow> None
         | e # es \<Rightarrow>
             if e = CHR ''u'' then
               (case es of
                  h1 # h2 # h3 # h4 # rest \<Rightarrow>
                    (case hex4 h1 h2 h3 h4 of
                       None \<Rightarrow> None
                     | Some u \<Rightarrow>
                         (case parse_chars rest of
                            None \<Rightarrow> None
                          | Some (t, r) \<Rightarrow> Some (encode_unit u @ t, r)))
                | _ \<Rightarrow> None)
             else
               (case escape_char e of
                  None \<Rightarrow> None
                | Some x \<Rightarrow>
                    (case parse_chars es of
                       None \<Rightarrow> None
                     | Some (t, r) \<Rightarrow> Some (x # t, r))))
      else if (of_char c :: nat) < 32 then None
      else
        (case parse_chars cs of
           None \<Rightarrow> None
         | Some (t, r) \<Rightarrow> Some (c # t, r)))"

text \<open>
  A number: an optional minus, \<open>0\<close> or a digit from 1 to 9 followed by digits, an
  optional fraction and an optional exponent, each with at least one digit. The result
  is the lexeme and the rest of the text.
\<close>

definition parse_digits1 :: "string \<Rightarrow> (string \<times> string) option" where
  "parse_digits1 s =
     (let ds = takeWhile is_digit s
      in if ds = [] then None else Some (ds, dropWhile is_digit s))"

definition parse_int_part :: "string \<Rightarrow> (string \<times> string) option" where
  "parse_int_part s =
     (case s of
        [] \<Rightarrow> None
      | c # cs \<Rightarrow>
          if c = CHR ''0'' then Some ([c], cs)
          else if is_digit c then Some (c # takeWhile is_digit cs, dropWhile is_digit cs)
          else None)"

definition parse_fraction :: "string \<Rightarrow> (string \<times> string) option" where
  "parse_fraction s =
     (case s of
        [] \<Rightarrow> Some ([], s)
      | c # cs \<Rightarrow>
          if c = CHR ''.'' then
            (case parse_digits1 cs of None \<Rightarrow> None | Some (ds, r) \<Rightarrow> Some (c # ds, r))
          else Some ([], s))"

definition parse_exponent :: "string \<Rightarrow> (string \<times> string) option" where
  "parse_exponent s =
     (case s of
        [] \<Rightarrow> Some ([], s)
      | c # cs \<Rightarrow>
          if c = CHR ''e'' \<or> c = CHR ''E'' then
            (case cs of
               [] \<Rightarrow> None
             | g # gs \<Rightarrow>
                 if g = CHR ''+'' \<or> g = CHR ''-'' then
                   (case parse_digits1 gs of
                      None \<Rightarrow> None
                    | Some (ds, r) \<Rightarrow> Some (c # g # ds, r))
                 else
                   (case parse_digits1 cs of
                      None \<Rightarrow> None
                    | Some (ds, r) \<Rightarrow> Some (c # ds, r)))
          else Some ([], s))"

definition parse_number :: "string \<Rightarrow> (string \<times> string) option" where
  "parse_number s =
     (let (sign, s1) = (case s of
                          [] \<Rightarrow> ([], s)
                        | c # cs \<Rightarrow> if c = CHR ''-'' then ([c], cs) else ([], s))
      in case parse_int_part s1 of
           None \<Rightarrow> None
         | Some (ip, s2) \<Rightarrow>
             (case parse_fraction s2 of
                None \<Rightarrow> None
              | Some (fp, s3) \<Rightarrow>
                  (case parse_exponent s3 of
                     None \<Rightarrow> None
                   | Some (ep, s4) \<Rightarrow> Some (sign @ ip @ fp @ ep, s4))))"

text \<open>
  Values, the elements of an array after its opening bracket and the members of an
  object after its opening brace. The tests \<open>length r < length s\<close> before the calls on
  the rest of the text always succeed, since a value, a comma and a key are at least one
  character long (\<open>parse_elements_unguarded\<close> and \<open>parse_members_unguarded\<close> below);
  they are there for the termination proof.
\<close>

function parse_value :: "string \<Rightarrow> (json \<times> string) option"
  and parse_elements :: "string \<Rightarrow> (json list \<times> string) option"
  and parse_members :: "string \<Rightarrow> ((string \<times> json) list \<times> string) option"
where
  "parse_value s =
     (case s of
        [] \<Rightarrow> None
      | c # cs \<Rightarrow>
          if c = CHR ''{'' then
            (case skip_ws cs of
               [] \<Rightarrow> None
             | d # ds \<Rightarrow>
                 if d = CHR ''}'' then Some (JObj [], ds)
                 else (case parse_members (skip_ws cs) of
                         None \<Rightarrow> None
                       | Some (kvs, r) \<Rightarrow> Some (JObj kvs, r)))
          else if c = CHR ''['' then
            (case skip_ws cs of
               [] \<Rightarrow> None
             | d # ds \<Rightarrow>
                 if d = CHR '']'' then Some (JArr [], ds)
                 else (case parse_elements (skip_ws cs) of
                         None \<Rightarrow> None
                       | Some (vs, r) \<Rightarrow> Some (JArr vs, r)))
          else if c = CHR 0x22 then
            (case parse_chars cs of None \<Rightarrow> None | Some (t, r) \<Rightarrow> Some (JStr t, r))
          else if prefix ''true'' s then Some (JBool True, drop 4 s)
          else if prefix ''false'' s then Some (JBool False, drop 5 s)
          else if prefix ''null'' s then Some (JNull, drop 4 s)
          else (case parse_number s of None \<Rightarrow> None | Some (t, r) \<Rightarrow> Some (JNum t, r)))"
| "parse_elements s =
     (case parse_value s of
        None \<Rightarrow> None
      | Some (v, r) \<Rightarrow>
          (case skip_ws r of
             [] \<Rightarrow> None
           | d # ds \<Rightarrow>
               if d = CHR '']'' then Some ([v], ds)
               else if d = CHR '','' then
                 (if length (skip_ws ds) < length s then
                    (case parse_elements (skip_ws ds) of
                       None \<Rightarrow> None
                     | Some (vs, r') \<Rightarrow> Some (v # vs, r'))
                  else None)
               else None))"
| "parse_members s =
     (case s of
        [] \<Rightarrow> None
      | q # cs \<Rightarrow>
          if q = CHR 0x22 then
            (case parse_chars cs of
               None \<Rightarrow> None
             | Some (k, r) \<Rightarrow>
                 (case skip_ws r of
                    [] \<Rightarrow> None
                  | d # ds \<Rightarrow>
                      if d = CHR '':'' then
                        (if length (skip_ws ds) < length s then
                           (case parse_value (skip_ws ds) of
                              None \<Rightarrow> None
                            | Some (v, r1) \<Rightarrow>
                                (case skip_ws r1 of
                                   [] \<Rightarrow> None
                                 | e # es \<Rightarrow>
                                     if e = CHR ''}'' then Some ([(k, v)], es)
                                     else if e = CHR '','' then
                                       (if length (skip_ws es) < length s then
                                          (case parse_members (skip_ws es) of
                                             None \<Rightarrow> None
                                           | Some (kvs, r2) \<Rightarrow> Some ((k, v) # kvs, r2))
                                        else None)
                                     else None))
                         else None)
                      else None))
          else None)"
  by pat_completeness auto
termination
proof -
  have shorter: "length ys < length xs" if "dropWhile P xs = y # ys"
    for P and xs ys :: string and y
  proof -
    have "length (dropWhile P xs) \<le> length xs"
      by (rule length_dropWhile_le)
    with that show ?thesis by simp
  qed
  show ?thesis
    by (relation "measure (\<lambda>x. case x of
                   Inl s \<Rightarrow> 2 * length s
                 | Inr (Inl s) \<Rightarrow> 2 * length s + 1
                 | Inr (Inr s) \<Rightarrow> 2 * length s + 1)")
      (auto simp: skip_ws_def dest: shorter)
qed

declare parse_value.simps [simp del] parse_elements.simps [simp del] parse_members.simps [simp del]

text \<open>\<open>JSON.parse(text)\<close>: one value between optional white space; \<open>None\<close> is the SyntaxError.\<close>

definition json_parse :: "string \<Rightarrow> json option" where
  "json_parse s =
     (case parse_value (skip_ws s) of
        None \<Rightarrow> None
      | Some (v, r) \<Rightarrow> if skip_ws r = [] then Some v else None)"

section \<open>Patterns\<close>

text \<open>
  A regular expression is given by what the engine does with it at one position of a
  text: from the text before the position and the text from the position on, the length
  of the match that starts there, if there is one. An exclusion pattern is a global
  regular expression or a string; an entry of the list may be \<open>undefined\<close> (\<open>None\<close>).
\<close>

type_synonym regex = "string \<Rightarrow> string \<Rightarrow> nat option"

datatype pattern = RegExp regex | Literal string

text \<open>\<open>text.match(r)\<close> is truthy when \<open>r\<close> matches at some position, the end included.\<close>

fun rx_search :: "regex \<Rightarrow> string \<Rightarrow> string \<Rightarrow> bool" where
  "rx_search r left [] = (case r left [] of None \<Rightarrow> False | Some n \<Rightarrow> True)"
| "rx_search r left (c # cs) =
     (case r left (c # cs) of
        None \<Rightarrow> rx_search r (left @ [c]) cs
      | Some n \<Rightarrow> True)"

text \<open>
  \<open>text.replaceAll(r, '')\<close> for a global \<open>r\<close>: from left to right, the match at the
  first position that has one is dropped and the search goes on behind it; after an
  empty match it goes on one character further.
\<close>

function remove_all :: "regex \<Rightarrow> string \<Rightarrow> string \<Rightarrow> string" where
  "remove_all r left [] = []"
| "remove_all r left (c # cs) =
     (case r left (c # cs) of
        None \<Rightarrow> c # remove_all r (left @ [c]) cs
      | Some n \<Rightarrow>
          if n = 0 then c # remove_all r (left @ [c]) cs
          else remove_all r (left @ take n (c # cs)) (drop n (c # cs)))"
  by pat_completeness auto
termination
  by (relation "measure (\<lambda>(r, left, s). length s)") auto

text \<open>A string as the pattern of \<open>replaceAll\<close> matches its own text; the empty string is skipped.\<close>

definition literal_rx :: "string \<Rightarrow> regex" where
  "literal_rx t left s = (if t = [] then None else if prefix t s then Some (length t) else None)"

text \<open>
  Modelled from the spec: the helper \<open>stripRegexPatterns\<close> of
  \<open>./strip-regex-patterns\<close>, which is not among the sources. The spec: once emission has
  begun, every fragment has all exclusion patterns applied (regex patterns removed
  globally, literal strings removed). The patterns are applied in the order of the list,
  each to the result of the one before.
\<close>

definition strip_one :: "string \<Rightarrow> pattern option \<Rightarrow> string" where
  "strip_one t p =
     (case p of
        None \<Rightarrow> t
      | Some (RegExp r) \<Rightarrow> remove_all r [] t
      | Some (Literal l) \<Rightarrow> remove_all (literal_rx l) [] t)"

definition stripRegexPatterns :: "string \<Rightarrow> pattern option list \<Rightarrow> string" where
  "stripRegexPatterns inputString patternList = foldl strip_one inputString patternList"

text \<open>
  The patterns of \<open>shellCodeExclusions\<close>. \<open>/```[a-zA-Z]*/gi\<close> matches three backticks and
  every ASCII letter behind them (without the \<open>u\<close> flag, \<open>i\<close> maps no other character to
  a letter). \<open>/```[a-zA-Z]*\n/gi\<close> matches if a newline follows these letters: giving
  letters back would put a letter where the newline has to be.
\<close>

definition is_letter :: "char \<Rightarrow> bool" where
  "is_letter c =
     (let n = (of_char c :: nat) in if 97 \<le> n \<and> n \<le> 122 then True else 65 \<le> n \<and> n \<le> 90)"

definition fence_rx :: regex where
  "fence_rx left s =
     (if prefix backticks s then Some (3 + length (takeWhile is_letter (drop 3 s))) else None)"

definition fence_newline_rx :: regex where
  "fence_newline_rx left s =
     (if prefix backticks s then
        (let n = 3 + length (takeWhile is_letter (drop 3 s))
         in case drop n s of
              [] \<Rightarrow> None
            | c # cs \<Rightarrow> if c = newline then Some (n + 1) else None)
      else None)"

definition shellCodeExclusions :: "pattern option list" where
  "shellCodeExclusions =
     [Some (RegExp fence_newline_rx), Some (RegExp fence_rx), Some (Literal [newline])]"

section \<open>The stream decoder (readData)\<close>

text \<open>
  \<open>readData\<close> is in the second part of \<open>src/helpers/command-history.ts\<close> as the
  sources give it, the module \<open>./completion\<close>. What it takes from its surroundings:
  the text \<open>${error}\<close> of the exception caught in \<open>parseContent\<close> (it depends on the
  engine), for the JSON text that was parsed;
  \<open>new RegExp(s)\<close>, which \<open>match\<close> builds from a string pattern (\<open>None\<close>: the string is
  no regular expression and \<open>match\<close> throws); the two notices,
  \<open>yellow(i18n.t('Analysis stopped'))\<close> and \<open>yellow(i18n.t('Analysis complete'))\<close>;
  \<open>options?.isAnalysis\<close>; the rest arguments \<open>excluded\<close>; the text the engine gives a
  number, from its lexeme (\<open>numberString\<close>); and what \<open>stripRegexPatterns\<close> returns for a
  content that is no string (\<open>stripNonString\<close>, \<open>None\<close> when it throws): the code of that
  helper is not among the sources, and the spec describes it for text only.
\<close>

datatype js_error = SyntaxError | TypeError

record config =
  errorString :: "js_error \<Rightarrow> string \<Rightarrow> string"
  newRegExp :: "string \<Rightarrow> regex option"
  stoppedNotice :: string
  completeNotice :: string
  isAnalysis :: bool
  excluded :: "pattern option list"
  numberString :: "string \<Rightarrow> string"
  stripNonString :: "json \<Rightarrow> pattern option list \<Rightarrow> json option"

text \<open>\<open>text.includes(t)\<close>.\<close>

fun includes_str :: "string \<Rightarrow> string \<Rightarrow> bool" where
  "includes_str t [] = (t = [])"
| "includes_str t (c # cs) = (if prefix t (c # cs) then True else includes_str t cs)"

text \<open>\<open>chunk.split('\n\n')\<close>: the pieces between two newlines, found from left to right.\<close>

fun split_frames :: "string \<Rightarrow> string list" where
  "split_frames [] = [[]]"
| "split_frames [c] = [[c]]"
| "split_frames (c # d # cs) =
     (if c = newline \<and> d = newline then [] # split_frames cs
      else (case split_frames (d # cs) of [] \<Rightarrow> [[c]] | l # ls \<Rightarrow> (c # l) # ls))"

text \<open>
  Property reads on a parsed value. Only the names \<open>choices\<close>, \<open>delta\<close>, \<open>content\<close> and
  the index \<open>0\<close> are read, and no prototype has them, so a name is found in an object
  only (the last member of that name), and the index also in an array and in a string.
  \<open>None\<close> is \<open>undefined\<close>.
\<close>

definition get_prop :: "string \<Rightarrow> json \<Rightarrow> json option" where
  "get_prop name v = (case v of JObj kvs \<Rightarrow> map_of (rev kvs) name | _ \<Rightarrow> None)"

definition first_unit :: "string \<Rightarrow> string" where
  "first_unit s =
     (case s of
        [] \<Rightarrow> []
      | c # cs \<Rightarrow>
          (let n = (of_char c :: nat)
           in if n < 128 then [c] else if n < 224 then take 2 s else take 3 s))"

definition index0 :: "json \<Rightarrow> json option" where
  "index0 v =
     (case v of
        JArr vs \<Rightarrow> (case vs of [] \<Rightarrow> None | x # xs \<Rightarrow> Some x)
      | JObj kvs \<Rightarrow> map_of (rev kvs) ''0''
      | JStr s \<Rightarrow> (if s = [] then None else Some (JStr (first_unit s)))
      | _ \<Rightarrow> None)"

text \<open>\<open>a?.b\<close>: \<open>undefined\<close> when \<open>a\<close> is \<open>undefined\<close> or \<open>null\<close>.\<close>

definition chain :: "json option \<Rightarrow> (json \<Rightarrow> json option) \<Rightarrow> json option" where
  "chain a get = (case a of None \<Rightarrow> None | Some JNull \<Rightarrow> None | Some v \<Rightarrow> get v)"

text \<open>
  \<open>parseContent\<close> is declared to return a string, but the \<open>content\<close> of a frame can be
  any JSON value, and \<open>readData\<close> uses it as it comes: \<open>buffer += content\<close> appends its
  text, \<open>if (dataStart && content)\<close> tests its truth value.

  The text of a value (\<open>None\<close>: the conversion throws a TypeError). An array is the
  texts of its elements between commas, with the empty text for \<open>null\<close>; an object is
  \<open>[object Object]\<close>, unless it has a member \<open>toString\<close>, which hides the method of that
  name and is not callable.
\<close>

fun js_string :: "(string \<Rightarrow> string) \<Rightarrow> json \<Rightarrow> string option"
  and js_elements :: "(string \<Rightarrow> string) \<Rightarrow> json list \<Rightarrow> string list option"
where
  "js_string ns JNull = Some ''null''"
| "js_string ns (JBool b) = Some (if b then ''true'' else ''false'')"
| "js_string ns (JNum l) = Some (ns l)"
| "js_string ns (JStr t) = Some t"
| "js_string ns (JArr vs) =
     (case js_elements ns vs of None \<Rightarrow> None | Some ts \<Rightarrow> Some (join '','' ts))"
| "js_string ns (JObj kvs) =
     (if ''toString'' \<in> set (map fst kvs) then None else Some ''[object Object]'')"
| "js_elements ns [] = Some []"
| "js_elements ns (v # vs) =
     (case (case v of JNull \<Rightarrow> Some [] | _ \<Rightarrow> js_string ns v) of
        None \<Rightarrow> None
      | Some t \<Rightarrow> (case js_elements ns vs of None \<Rightarrow> None | Some ts \<Rightarrow> Some (t # ts)))"

text \<open>
  The truth value: the empty string, \<open>false\<close>, \<open>null\<close> and a number that is zero (its
  text is \<open>0\<close>, also for \<open>-0\<close>) are falsy, every array and object is truthy.
\<close>

definition truthy :: "(string \<Rightarrow> string) \<Rightarrow> json \<Rightarrow> bool" where
  "truthy ns v =
     (case v of
        JNull \<Rightarrow> False
      | JBool b \<Rightarrow> b
      | JNum l \<Rightarrow> (if ns l = ''0'' then False else True)
      | JStr t \<Rightarrow> (if t = [] then False else True)
      | JArr vs \<Rightarrow> True
      | JObj kvs \<Rightarrow> True)"

text \<open>\<open>payload.replaceAll(/(\n)?^data:\s*/g, '')\<close>: without the \<open>m\<close> flag \<open>^\<close> is the start of the text only.\<close>

definition strip_data_marker :: "string \<Rightarrow> string" where
  "strip_data_marker payload =
     (if prefix ''data:'' payload then trimStart (drop 5 payload) else payload)"

definition diagnostic :: "config \<Rightarrow> string \<Rightarrow> js_error \<Rightarrow> string" where
  "diagnostic cfg payload e =
     ''Error with JSON.parse and '' @ payload @ ''.'' @ [newline]
     @ errorString cfg e (trim (strip_data_marker payload))"

definition parseContent :: "config \<Rightarrow> string \<Rightarrow> json" where
  "parseContent cfg payload =
     (let data = strip_data_marker payload
      in case json_parse (trim data) of
           None \<Rightarrow> JStr (diagnostic cfg payload SyntaxError)
         | Some delta \<Rightarrow>
             (case delta of
                JNull \<Rightarrow> JStr (diagnostic cfg payload TypeError)
              | _ \<Rightarrow>
                  (case chain (chain (chain (get_prop ''choices'' delta) index0) (get_prop ''delta''))
                          (get_prop ''content'') of
                     None \<Rightarrow> JStr []
                   | Some JNull \<Rightarrow> JStr []
                   | Some v \<Rightarrow> v)))"

text \<open>
  The state of one read: the local variables of \<open>readData\<close>, the \<open>SIGINT\<close> listeners of
  the process, the calls of \<open>writer\<close> in their order, the value the promise was resolved
  with (a second \<open>resolve\<close> changes nothing), the listeners other than the reader's own
  that a signal has invoked, and where the body of the promise is. A call of \<open>writer\<close>
  is recorded by the text of the value passed, and \<open>writer\<close> is taken to return.
  Standard input is taken to be a terminal (\<open>setRawMode\<close> exists).
\<close>

datatype listener = Prior nat | AnalysisHandler

datatype phase =
    Reading \<comment> \<open>in the \<open>for await\<close> loop, waiting for the next chunk\<close>
  | Returned \<comment> \<open>the body has returned\<close>
  | Threw \<comment> \<open>the body has thrown: the promise of the reader is not settled by it\<close>

record reader =
  stopTextStream :: bool
  stoppedByUser :: bool
  data :: string
  dataStart :: bool
  buffer :: string
  originalSigintHandler :: "listener option"
  sigintListeners :: "listener list"
  written :: "string list"
  resolved :: "string option"
  invoked :: "nat list"
  killed :: bool
  phase :: phase

definition writer :: "string \<Rightarrow> reader \<Rightarrow> reader" where
  "writer t s = s\<lparr>written := written s @ [t]\<rparr>"

definition resolve :: "string \<Rightarrow> reader \<Rightarrow> reader" where
  "resolve v s = (case resolved s of None \<Rightarrow> s\<lparr>resolved := Some v\<rparr> | Some w \<Rightarrow> s)"

text \<open>
  The body of the promise up to its first \<open>await\<close>. \<open>priors\<close> names the \<open>SIGINT\<close>
  listeners registered before the call, in their order.
\<close>

definition start :: "config \<Rightarrow> nat list \<Rightarrow> reader" where
  "start cfg priors =
     (let sigintHandlers = map Prior priors
      in \<lparr>stopTextStream = False, stoppedByUser = False, data = [], dataStart = False,
          buffer = [],
          originalSigintHandler =
            (if isAnalysis cfg then
               (if sigintHandlers = [] then None else Some (last sigintHandlers))
             else None),
          sigintListeners =
            (if isAnalysis cfg then [AnalysisHandler] else sigintHandlers),
          written = [], resolved = None, invoked = [], killed = False, phase = Reading\<rparr>)"

definition cleanup :: "config \<Rightarrow> reader \<Rightarrow> reader" where
  "cleanup cfg s =
     (if isAnalysis cfg then
        s\<lparr>sigintListeners := (case originalSigintHandler s of None \<Rightarrow> [] | Some h \<Rightarrow> [h])\<rparr>
      else s)"

text \<open>The branch of the loop for the completion marker and for a stop request.\<close>

definition finish :: "config \<Rightarrow> reader \<Rightarrow> reader" where
  "finish cfg s =
     (let s1 = cleanup cfg (s\<lparr>dataStart := False\<rparr>);
          s2 = (if stoppedByUser s1 then writer (newline # completeNotice cfg @ [newline]) s1
                else s1)
      in (resolve (data s2) s2)\<lparr>phase := Returned\<rparr>)"

definition excludedPrefix :: "config \<Rightarrow> pattern option" where
  "excludedPrefix cfg = (case excluded cfg of [] \<Rightarrow> None | p # ps \<Rightarrow> p)"

text \<open>
  \<open>buffer.match(excludedPrefix ?? '')\<close>; \<open>new RegExp('')\<close> matches everywhere.
  \<open>None\<close>: \<open>match\<close> throws.
\<close>

definition matchPrefix :: "config \<Rightarrow> string \<Rightarrow> bool option" where
  "matchPrefix cfg buf =
     (case excludedPrefix cfg of
        None \<Rightarrow> Some True
      | Some (RegExp r) \<Rightarrow> Some (rx_search r [] buf)
      | Some (Literal l) \<Rightarrow>
          (if l = [] then Some True
           else (case newRegExp cfg l of None \<Rightarrow> None | Some r \<Rightarrow> Some (rx_search r [] buf))))"

text \<open>\<open>if (excludedPrefix)\<close>: a regular expression is truthy, a string unless it is empty.\<close>

definition truthyPrefix :: "config \<Rightarrow> bool" where
  "truthyPrefix cfg =
     (case excludedPrefix cfg of
        None \<Rightarrow> False
      | Some (RegExp r) \<Rightarrow> True
      | Some (Literal l) \<Rightarrow> (if l = [] then False else True))"

datatype ctl = Next | Break | Return | Throw

text \<open>
  \<open>stripRegexPatterns(content, excluded)\<close>: on a string as the spec has it, on another
  value as the parameter says.
\<close>

definition stripContent :: "config \<Rightarrow> json \<Rightarrow> json option" where
  "stripContent cfg content =
     (case content of
        JStr t \<Rightarrow> Some (JStr (stripRegexPatterns t (excluded cfg)))
      | _ \<Rightarrow> stripNonString cfg content (excluded cfg))"

text \<open>
  \<open>if (dataStart && content) { ... }\<close>, the last statement of the loop body:
  \<open>data += contentWithoutExcluded\<close> converts the value to text, then the writer is
  called.
\<close>

definition emit :: "config \<Rightarrow> json \<Rightarrow> reader \<Rightarrow> ctl \<times> reader" where
  "emit cfg content s =
     (if dataStart s then
        (if truthy (numberString cfg) content then
           (case stripContent cfg content of
              None \<Rightarrow> (Throw, s)
            | Some contentWithoutExcluded \<Rightarrow>
                (case js_string (numberString cfg) contentWithoutExcluded of
                   None \<Rightarrow> (Throw, s)
                 | Some t \<Rightarrow> (Next, writer t (s\<lparr>data := data s @ t\<rparr>))))
         else (Next, s))
      else (Next, s))"

text \<open>The body of \<open>for (const payload of payloads)\<close> and how it leaves the loop.\<close>

definition processPayload :: "config \<Rightarrow> string \<Rightarrow> reader \<Rightarrow> ctl \<times> reader" where
  "processPayload cfg payload s =
     (if includes_str ''[DONE]'' payload then (Return, finish cfg s)
      else if stopTextStream s then (Return, finish cfg s)
      else if prefix ''data:'' payload then
        (let content = parseContent cfg payload
         in if dataStart s then emit cfg content s
            else
              (case js_string (numberString cfg) content of
                 None \<Rightarrow> (Throw, s)
               | Some t \<Rightarrow>
                   (let s1 = s\<lparr>buffer := buffer s @ t\<rparr>
                    in case matchPrefix cfg (buffer s1) of
                         None \<Rightarrow> (Throw, s1)
                       | Some m \<Rightarrow>
                           if m then
                             (let s2 = s1\<lparr>dataStart := True, buffer := []\<rparr>
                              in if truthyPrefix cfg then (Break, s2)
                                 else emit cfg content s2)
                           else emit cfg content s1)))
      else (Next, s))"

fun processPayloads :: "config \<Rightarrow> string list \<Rightarrow> reader \<Rightarrow> ctl \<times> reader" where
  "processPayloads cfg [] s = (Next, s)"
| "processPayloads cfg (payload # payloads) s =
     (case processPayload cfg payload s of
        (Next, s') \<Rightarrow> processPayloads cfg payloads s'
      | (c, s') \<Rightarrow> (c, s'))"

text \<open>One turn of \<open>for await (const chunk of iterableStream)\<close>.\<close>

definition onChunk :: "config \<Rightarrow> string \<Rightarrow> reader \<Rightarrow> reader" where
  "onChunk cfg chunk s =
     (case processPayloads cfg (split_frames chunk) s of
        (Throw, s') \<Rightarrow> s'\<lparr>phase := Threw\<rparr>
      | (c, s') \<Rightarrow> s')"

text \<open>The end of the stream: the statements behind the loop.\<close>

definition onEnd :: "config \<Rightarrow> reader \<Rightarrow> reader" where
  "onEnd cfg s = (let s1 = cleanup cfg s in (resolve (data s1) s1)\<lparr>phase := Returned\<rparr>)"

text \<open>The listener that \<open>readData\<close> registers for \<open>SIGINT\<close> in analysis mode, and a listener of before.\<close>

definition invoke :: "config \<Rightarrow> reader \<Rightarrow> listener \<Rightarrow> reader" where
  "invoke cfg s l =
     (case l of
        AnalysisHandler \<Rightarrow>
          (let s1 = s\<lparr>stoppedByUser := True, stopTextStream := True\<rparr>;
               s2 = writer ([newline, newline] @ stoppedNotice cfg @ [newline]) s1
           in resolve (data s2) s2)
      | Prior n \<Rightarrow> s\<lparr>invoked := invoked s @ [n]\<rparr>)"

definition stopTextStreamKeys :: "string list" where
  "stopTextStreamKeys = [''q'', ''escape'']"

text \<open>
  What happens around the reader, one event at a time (JavaScript runs each callback to
  its end): the stream yields a chunk, ends or fails; a key with the given name is
  pressed; the process receives \<open>SIGINT\<close>, which calls the registered listeners in their
  order and ends the process when there is none.
\<close>

datatype event = Chunk string | End | Fail | Keypress string | Sigint

definition handle :: "config \<Rightarrow> reader \<Rightarrow> event \<Rightarrow> reader" where
  "handle cfg s ev =
     (if killed s then s
      else
        (case ev of
           Chunk chunk \<Rightarrow> (if phase s = Reading then onChunk cfg chunk s else s)
         | End \<Rightarrow> (if phase s = Reading then onEnd cfg s else s)
         | Fail \<Rightarrow> (if phase s = Reading then s\<lparr>phase := Threw\<rparr> else s)
         | Keypress name \<Rightarrow>
             (if name \<in> set stopTextStreamKeys then s\<lparr>stopTextStream := True\<rparr> else s)
         | Sigint \<Rightarrow>
             (if sigintListeners s = [] then s\<lparr>killed := True\<rparr>
              else foldl (invoke cfg) s (sigintListeners s))))"

definition readData :: "config \<Rightarrow> nat list \<Rightarrow> event list \<Rightarrow> reader" where
  "readData cfg priors events = foldl (handle cfg) (start cfg priors) events"

text \<open>
  The two notices as \<open>readData\<close> passes them to the writer; they are written in
  analysis mode only. A reader is \<open>silent\<close> when emission has not started, no text is
  accumulated and the writer has received nothing but notices; outside analysis mode the
  reader's own listener is not registered and no interrupt has been taken.
\<close>

definition notices :: "config \<Rightarrow> string set" where
  "notices cfg =
     (if isAnalysis cfg
      then {[newline, newline] @ stoppedNotice cfg @ [newline],
            newline # completeNotice cfg @ [newline]}
      else {})"

definition silent :: "config \<Rightarrow> reader \<Rightarrow> bool" where
  "silent cfg s =
     ((isAnalysis cfg \<or> (AnalysisHandler \<notin> set (sigintListeners s) \<and> \<not> stoppedByUser s)) \<and>
      \<not> dataStart s \<and> set (written s) \<subseteq> notices cfg \<and> data s = [])"

text \<open>
  The payloads a list of events delivers, in their order, and the start-of-content test
  told from them alone: \<open>unmatched cfg buf payloads\<close> holds when the look-behind text
  \<open>buf\<close>, with the texts of the data payloads appended one after the other, at no payload
  matches the first exclusion pattern. The scan ends at a payload with the completion
  marker and where the conversion of a content or the match throws, as the read does.
\<close>

definition payloadsOf :: "event list \<Rightarrow> string list" where
  "payloadsOf events =
     concat (map (\<lambda>ev. case ev of Chunk chunk \<Rightarrow> split_frames chunk | _ \<Rightarrow> []) events)"

fun unmatched :: "config \<Rightarrow> string \<Rightarrow> string list \<Rightarrow> bool" where
  "unmatched cfg buf [] = True"
| "unmatched cfg buf (payload # payloads) =
     (if includes_str ''[DONE]'' payload then True
      else if prefix ''data:'' payload then
        (case js_string (numberString cfg) (parseContent cfg payload) of
           None \<Rightarrow> True
         | Some t \<Rightarrow>
             (case matchPrefix cfg (buf @ t) of
                None \<Rightarrow> True
              | Some m \<Rightarrow> if m then False else unmatched cfg (buf @ t) payloads))
      else unmatched cfg buf payloads)"

section \<open>The bridge to the worker process (generateCompletionWithFork)\<close>

text \<open>
  An error object: its message, name, code and stack. The stack of an error made by
  \<open>new Error\<close> is the engine's; it is the parameter \<open>trace\<close> below.
\<close>

record error_obj =
  message :: string
  name :: string
  code :: "string option"
  stack :: string

datatype worker_message = ChunkMsg string | DoneMsg | ErrorMsg error_obj | OtherMsg

datatype response_event = DataEv string | EndEv | ErrorEv error_obj

text \<open>
  The response \<open>generateCompletionWithFork\<close> has returned to its caller: the events
  emitted on it so far, and whether \<open>messageHandler\<close> and \<open>errorHandler\<close> are still
  registered on the worker. The listener for \<open>exit\<close> is never removed.
\<close>

record request =
  emitted :: "response_event list"
  messageHandlerOn :: bool
  errorHandlerOn :: bool

definition sent :: request where
  "sent = \<lparr>emitted = [], messageHandlerOn = True, errorHandlerOn = True\<rparr>"

definition emitEv :: "response_event \<Rightarrow> request \<Rightarrow> request" where
  "emitEv e r = r\<lparr>emitted := emitted r @ [e]\<rparr>"

definition messageHandler :: "worker_message \<Rightarrow> request \<Rightarrow> request" where
  "messageHandler m r =
     (if messageHandlerOn r then
        (case m of
           ChunkMsg d \<Rightarrow> emitEv (DataEv d) r
         | DoneMsg \<Rightarrow> (emitEv EndEv r)\<lparr>messageHandlerOn := False, errorHandlerOn := False\<rparr>
         | ErrorMsg e \<Rightarrow>
             (emitEv (ErrorEv e) r)\<lparr>messageHandlerOn := False, errorHandlerOn := False\<rparr>
         | OtherMsg \<Rightarrow> r)
      else r)"

definition errorHandler :: "error_obj \<Rightarrow> request \<Rightarrow> request" where
  "errorHandler err r = (if errorHandlerOn r then emitEv (ErrorEv err) r else r)"

text \<open>The exit code of the worker: a number, or \<open>null\<close> when a signal ended it.\<close>

definition show_code :: "int option \<Rightarrow> string" where
  "show_code c = (case c of None \<Rightarrow> ''null'' | Some n \<Rightarrow> show_int n)"

definition exitError :: "string \<Rightarrow> int option \<Rightarrow> error_obj" where
  "exitError trace c =
     \<lparr>message = ''AI process exited with code '' @ show_code c, name = ''Error'',
      code = None, stack = trace\<rparr>"

text \<open>\<open>process.on('exit', (code) => { if (code !== 0) ... })\<close>.\<close>

definition exitHandler :: "string \<Rightarrow> int option \<Rightarrow> request \<Rightarrow> request" where
  "exitHandler trace c r = (if c = Some 0 then r else emitEv (ErrorEv (exitError trace c)) r)"

datatype worker_event = Message worker_message | ProcessError error_obj | Exit "int option"

definition onWorker :: "string \<Rightarrow> request \<Rightarrow> worker_event \<Rightarrow> request" where
  "onWorker trace r ev =
     (case ev of
        Message m \<Rightarrow> messageHandler m r
      | ProcessError err \<Rightarrow> errorHandler err r
      | Exit c \<Rightarrow> exitHandler trace c r)"

definition generateCompletionWithFork :: "string \<Rightarrow> worker_event list \<Rightarrow> request" where
  "generateCompletionWithFork trace events = foldl (onWorker trace) sent events"

section \<open>Sample inputs\<close>

text \<open>A command result to run the history on: the \<open>n\<close>-th command, which succeeded silently.\<close>

definition sample_result :: "nat \<Rightarrow> CommandResult" where
  "sample_result n =
     \<lparr>command = show_nat n, exitCode = 0, stdout = [], stderr = [], timestamp = int n\<rparr>"

text \<open>
  The frames of the end-to-end scenario, each with its delimiter, a frame whose content
  is the number 42, and a configuration without exclusion patterns; the error text, the notices and the text of a number stand
  for the ones of the engine and of the translation in use, and the helper is taken to
  return a value that is no string when there is no pattern and to throw otherwise.
\<close>

definition payload_ls :: string where
  \<open>payload_ls = ''data: {"choices":[{"delta":{"content":"ls"}}]}''\<close>

definition payload_la :: string where
  \<open>payload_la = ''data: {"choices":[{"delta":{"content":" -la"}}]}''\<close>

definition payload_number :: string where
  \<open>payload_number = ''data: {"choices":[{"delta":{"content":42}}]}''\<close>

definition payload_done :: string where
  "payload_done = ''data: [DONE]''"

definition frame :: "string \<Rightarrow> string" where
  "frame payload = payload @ [newline, newline]"

definition plain :: config where
  "plain =
     \<lparr>errorString = (\<lambda>e t. case e of SyntaxError \<Rightarrow> ''SyntaxError: Unexpected token''
                                     | TypeError \<Rightarrow> ''TypeError: Cannot read properties of null''),
      newRegExp = (\<lambda>t. Some (literal_rx t)),
      stoppedNotice = ''Analysis stopped'', completeNotice = ''Analysis complete'',
      isAnalysis = False, excluded = [], numberString = (\<lambda>l. l),
      stripNonString = (\<lambda>v ps. case ps of [] \<Rightarrow> Some v | p # qs \<Rightarrow> None)\<rparr>"

text \<open>
  The configuration of a script request, with \<open>shellCodeExclusions\<close>, and frames for it:
  the opening fence with its newline (\<open>\n\<close> inside the JSON string), two backticks,
  one backtick, \<open>ls\<close> with a newline, two backticks and one backtick with a newline
  between them, the text \<open>aabb\<close> for a configuration whose only pattern is the string
  \<open>ab\<close> behind an \<open>undefined\<close> entry, a payload that is no JSON, and one that is no
  JSON and has an opening fence with its newline.
\<close>

definition shell :: config where
  "shell = plain\<lparr>excluded := shellCodeExclusions\<rparr>"

definition payload_fence :: string where
  \<open>payload_fence =
     ''data: {"choices":[{"delta":{"content":"```bash'' @ [CHR 0x5C] @ ''n"}}]}''\<close>

definition payload_two_ticks :: string where
  \<open>payload_two_ticks = ''data: {"choices":[{"delta":{"content":"``"}}]}''\<close>

definition payload_one_tick :: string where
  \<open>payload_one_tick = ''data: {"choices":[{"delta":{"content":"`"}}]}''\<close>

definition payload_ls_newline :: string where
  \<open>payload_ls_newline =
     ''data: {"choices":[{"delta":{"content":"ls'' @ [CHR 0x5C] @ ''n"}}]}''\<close>

definition payload_joined :: string where
  \<open>payload_joined =
     ''data: {"choices":[{"delta":{"content":"``'' @ [CHR 0x5C] @ ''n`"}}]}''\<close>

definition payload_aabb :: string where
  \<open>payload_aabb = ''data: {"choices":[{"delta":{"content":"aabb"}}]}''\<close>

definition literal_ab :: config where
  "literal_ab = plain\<lparr>excluded := [None, Some (Literal ''ab'')]\<rparr>"



text \<open>A captured output of sixteen lines, \<open>1\<close> to \<open>16\<close>.\<close>

definition sixteen_lines :: string where
  "sixteen_lines = join [newline] (map show_nat [1 ..< 17])"

section \<open>The JSON parser consumes what it parses\<close>

text \<open>
  Every parser returns a rest that is shorter than its input, so the length tests in
  \<open>parse_elements\<close> and \<open>parse_members\<close> never fail: both functions satisfy their
  equations without the tests.
\<close>

lemma parse_chars_shorter: "parse_chars s = Some (t, r) \<Longrightarrow> length r < length s"
proof (induction s arbitrary: t r rule: parse_chars.induct)
  case 1
  then show ?case by simp
next
  case (2 c cs)
  then show ?case
    by (auto split: if_splits list.splits option.splits prod.splits) fastforce+
qed

lemma parse_digits1_shorter: "parse_digits1 s = Some (t, r) \<Longrightarrow> length r < length s"
proof -
  assume a: "parse_digits1 s = Some (t, r)"
  then have "takeWhile is_digit s \<noteq> []" and "r = dropWhile is_digit s"
    by (auto simp: parse_digits1_def Let_def split: if_splits)
  moreover have "length (takeWhile is_digit s) + length (dropWhile is_digit s) = length s"
    by (metis length_append takeWhile_dropWhile_id)
  ultimately show ?thesis by (cases "takeWhile is_digit s") auto
qed

lemma parse_int_part_shorter: "parse_int_part s = Some (t, r) \<Longrightarrow> length r < length s"
  by (auto simp: parse_int_part_def split: list.splits if_splits
      intro: le_imp_less_Suc length_dropWhile_le)

lemma parse_fraction_le: "parse_fraction s = Some (t, r) \<Longrightarrow> length r \<le> length s"
  by (auto simp: parse_fraction_def split: list.splits if_splits option.splits
      dest!: parse_digits1_shorter)

lemma parse_exponent_le: "parse_exponent s = Some (t, r) \<Longrightarrow> length r \<le> length s"
  by (auto simp: parse_exponent_def split: list.splits if_splits option.splits
      dest!: parse_digits1_shorter)

lemma parse_number_shorter: "parse_number s = Some (t, r) \<Longrightarrow> length r < length s"
  by (auto simp: parse_number_def Let_def split: list.splits if_splits option.splits prod.splits
      dest!: parse_int_part_shorter parse_fraction_le parse_exponent_le)

lemma skip_ws_le: "length (skip_ws s) \<le> length s"
  by (simp add: skip_ws_def length_dropWhile_le)

lemma skip_ws_Cons_shorter: "skip_ws s = c # cs \<Longrightarrow> length cs < length s"
  using skip_ws_le [of s] by simp

lemma parse_shorter:
  "parse_value s = Some (v, r) \<Longrightarrow> length r < length s"
  "parse_elements s1 = Some (vs, r1) \<Longrightarrow> length r1 < length s1"
  "parse_members s2 = Some (kvs, r2) \<Longrightarrow> length r2 < length s2"
proof (induction s and s1 and s2 arbitrary: v r and vs r1 and kvs r2
    rule: parse_value_parse_elements_parse_members.induct)
  case (1 s)
  have members: "length r2 < Suc (length cs)"
    if "s = CHR ''{'' # cs" "skip_ws cs = d # ds" "d \<noteq> CHR ''}''"
      "parse_members (d # ds) = Some (kvs, r2)" for cs d ds kvs r2
    using "1.IH"(1) [of "CHR ''{''" cs d ds kvs r2] that skip_ws_le [of cs] by simp
  have elements: "length r1 < Suc (length cs)"
    if "s = CHR ''['' # cs" "skip_ws cs = d # ds" "d \<noteq> CHR '']''"
      "parse_elements (d # ds) = Some (vs, r1)" for cs d ds vs r1
    using "1.IH"(2) [of "CHR ''[''" cs d ds vs r1] that skip_ws_le [of cs] by simp
  from "1.prems" show ?case
    apply (subst (asm) parse_value.simps)
    apply (auto split: if_splits list.splits option.splits prod.splits
        dest: parse_chars_shorter parse_number_shorter skip_ws_Cons_shorter
        intro: members elements)
    done
next
  case (2 s)
  have val: "length ds < length s"
    if "parse_value s = Some (v, r)" "skip_ws r = d # ds" for v r d ds
    using "2.IH"(1) [OF that(1)] skip_ws_Cons_shorter [OF that(2)] by simp
  have rest: "length r1 < length s"
    if "parse_value s = Some (v, r)" "skip_ws r = d # ds" "d \<noteq> CHR '']''" "d = CHR '',''"
      "length (skip_ws ds) < length s" "parse_elements (skip_ws ds) = Some (vs', r1)"
    for v r d ds vs' r1
    using "2.IH"(2) [OF that(1) refl that(2,3,4,5,6)] that(5) by simp
  from "2.prems" show ?case
    apply (subst (asm) parse_elements.simps)
    apply (auto split: if_splits list.splits option.splits prod.splits intro: val rest)
    done
next
  case (3 s)
  have val: "length r1 < Suc (length cs)"
    if "s = CHR 0x22 # cs" "parse_chars cs = Some (k, r)" "skip_ws r = CHR '':'' # ds"
      "length (skip_ws ds) < Suc (length cs)" "parse_value (skip_ws ds) = Some (v, r1)"
    for cs k r ds v r1
    using "3.IH"(1) [OF that(1) refl that(2) refl that(3) refl _ that(5)] that(1,4) by simp
  have closing: "length es < Suc (length cs)"
    if "s = CHR 0x22 # cs" "parse_chars cs = Some (k, r)" "skip_ws r = CHR '':'' # ds"
      "length (skip_ws ds) < Suc (length cs)" "parse_value (skip_ws ds) = Some (v, r1)"
      "skip_ws r1 = e # es"
    for cs k r ds v r1 e es
    using val [OF that(1-5)] skip_ws_Cons_shorter [OF that(6)] by simp
  have rest: "length r2 < Suc (length cs)"
    if "s = CHR 0x22 # cs" "parse_chars cs = Some (k, r)" "skip_ws r = CHR '':'' # ds"
      "length (skip_ws ds) < Suc (length cs)" "parse_value (skip_ws ds) = Some (v, r1)"
      "skip_ws r1 = CHR '','' # es" "length (skip_ws es) < Suc (length cs)"
      "parse_members (skip_ws es) = Some (kvs', r2)"
    for cs k r ds v r1 es kvs' r2
    using "3.IH"(2) [OF that(1) refl that(2) refl that(3) refl _ that(5) refl that(6) _ refl _
        that(8)] that(1,4,7)
    by simp
  from "3.prems" show ?case
    apply (subst (asm) parse_members.simps)
    apply (auto split: if_splits list.splits option.splits prod.splits intro: closing rest)
    done
qed

lemma after_comma: "skip_ws r = d # ds \<Longrightarrow> length r < n \<Longrightarrow> length (skip_ws ds) < n"
  using skip_ws_Cons_shorter [of r d ds] skip_ws_le [of ds] by simp

lemma parse_elements_unguarded:
  "parse_elements s =
     (case parse_value s of
        None \<Rightarrow> None
      | Some (v, r) \<Rightarrow>
          (case skip_ws r of
             [] \<Rightarrow> None
           | d # ds \<Rightarrow>
               if d = CHR '']'' then Some ([v], ds)
               else if d = CHR '','' then
                 (case parse_elements (skip_ws ds) of
                    None \<Rightarrow> None
                  | Some (vs, r') \<Rightarrow> Some (v # vs, r'))
               else None))"
  by (subst parse_elements.simps)
    (auto split: option.splits list.splits dest: parse_shorter(1) after_comma)

lemma parse_members_unguarded:
  "parse_members s =
     (case s of
        [] \<Rightarrow> None
      | q # cs \<Rightarrow>
          if q = CHR 0x22 then
            (case parse_chars cs of
               None \<Rightarrow> None
             | Some (k, r) \<Rightarrow>
                 (case skip_ws r of
                    [] \<Rightarrow> None
                  | d # ds \<Rightarrow>
                      if d = CHR '':'' then
                        (case parse_value (skip_ws ds) of
                           None \<Rightarrow> None
                         | Some (v, r1) \<Rightarrow>
                             (case skip_ws r1 of
                                [] \<Rightarrow> None
                              | e # es \<Rightarrow>
                                  if e = CHR ''}'' then Some ([(k, v)], es)
                                  else if e = CHR '','' then
                                    (case parse_members (skip_ws es) of
                                       None \<Rightarrow> None
                                     | Some (kvs, r2) \<Rightarrow> Some ((k, v) # kvs, r2))
                                  else None))
                      else None))
          else None)"
proof -
  have colon: "length (skip_ws ds) < Suc (length cs)"
    if "parse_chars cs = Some (k, r)" "skip_ws r = d # ds" for cs k r d ds
    using parse_chars_shorter [OF that(1)] after_comma [OF that(2), of "length cs"]
    by simp
  have comma: "length (skip_ws es) < Suc (length cs)"
    if "parse_chars cs = Some (k, r)" "skip_ws r = d # ds"
      "parse_value (skip_ws ds) = Some (v, r1)" "skip_ws r1 = e # es" for cs k r d ds v r1 e es
  proof -
    have "length r1 < length (skip_ws ds)"
      using that(3) by (rule parse_shorter(1))
    then have "length r1 < Suc (length cs)"
      using colon [OF that(1,2)] by simp
    then show ?thesis
      using after_comma [OF that(4)] by simp
  qed
  show ?thesis
    by (subst parse_members.simps)
      (auto split: option.splits list.splits dest: colon comma)
qed

section \<open>The history buffer is bounded\<close>

lemma addToCommandHistory_take:
  "length h \<le> MAX_HISTORY_SIZE \<Longrightarrow> addToCommandHistory h r = take MAX_HISTORY_SIZE (r # h)"
  by (cases "length h = MAX_HISTORY_SIZE")
    (auto simp add: addToCommandHistory_def Let_def butlast_conv_take)

lemma foldl_addToCommandHistory:
  "length h \<le> MAX_HISTORY_SIZE \<Longrightarrow>
   foldl addToCommandHistory h rs = take MAX_HISTORY_SIZE (rev rs @ h)"
proof (induction rs arbitrary: h)
  case Nil
  then show ?case by simp
next
  case (Cons r rs)
  have len: "length (addToCommandHistory h r) \<le> MAX_HISTORY_SIZE"
    using Cons.prems by (simp add: addToCommandHistory_take)
  have "foldl addToCommandHistory (addToCommandHistory h r) rs
        = take MAX_HISTORY_SIZE (rev rs @ take MAX_HISTORY_SIZE (r # h))"
    using Cons.IH [OF len] Cons.prems by (simp add: addToCommandHistory_take)
  also have "\<dots> = take MAX_HISTORY_SIZE (rev rs @ r # h)"
    by (cases "length rs < MAX_HISTORY_SIZE") (simp_all add: min_def)
  finally show ?case by simp
qed

text \<open>
  C5. From a history within the capacity (the module starts with the empty one, and
  \<open>clearCommandHistory\<close> returns to it), every insertion keeps the length within the
  capacity 5, an insertion at capacity puts the new entry in front and drops the last,
  least recently inserted one, and after more than 5 insertions the history has length 5
  and is exactly the last 5 inserted entries, most recent first.
\<close>

theorem history_bounded_most_recent_first:
  assumes "length h \<le> MAX_HISTORY_SIZE"
  shows "MAX_HISTORY_SIZE = 5 \<and>
         length (addToCommandHistory h r) \<le> MAX_HISTORY_SIZE \<and>
         length (foldl addToCommandHistory h rs) \<le> MAX_HISTORY_SIZE \<and>
         (length h = MAX_HISTORY_SIZE \<longrightarrow> addToCommandHistory h r = r # butlast h) \<and>
         (MAX_HISTORY_SIZE < length rs \<longrightarrow>
            length (foldl addToCommandHistory h rs) = MAX_HISTORY_SIZE \<and>
            foldl addToCommandHistory h rs = take MAX_HISTORY_SIZE (rev rs) \<and>
            foldl addToCommandHistory h rs = rev (drop (length rs - MAX_HISTORY_SIZE) rs))"
proof -
  have "length (addToCommandHistory h r) \<le> MAX_HISTORY_SIZE"
    using assms by (simp add: addToCommandHistory_take)
  moreover have "length (foldl addToCommandHistory h rs) \<le> MAX_HISTORY_SIZE"
    using assms by (simp add: foldl_addToCommandHistory)
  moreover have "length h = MAX_HISTORY_SIZE \<longrightarrow> addToCommandHistory h r = r # butlast h"
    by (simp add: addToCommandHistory_def MAX_HISTORY_SIZE_def)
  moreover have "MAX_HISTORY_SIZE < length rs \<longrightarrow>
           length (foldl addToCommandHistory h rs) = MAX_HISTORY_SIZE \<and>
           foldl addToCommandHistory h rs = take MAX_HISTORY_SIZE (rev rs) \<and>
           foldl addToCommandHistory h rs = rev (drop (length rs - MAX_HISTORY_SIZE) rs)"
    using assms by (simp add: foldl_addToCommandHistory take_rev)
  moreover have "MAX_HISTORY_SIZE = 5"
    by (simp add: MAX_HISTORY_SIZE_def)
  ultimately show ?thesis by blast
qed

theorem history_bounded_most_recent_first_witness:
  "length ([] :: CommandResult list) \<le> MAX_HISTORY_SIZE \<and>
   MAX_HISTORY_SIZE
     < length [sample_result 1, sample_result 2, sample_result 3, sample_result 4,
               sample_result 5, sample_result 6, sample_result 7] \<and>
   foldl addToCommandHistory []
     [sample_result 1, sample_result 2, sample_result 3, sample_result 4,
      sample_result 5, sample_result 6, sample_result 7]
   = [sample_result 7, sample_result 6, sample_result 5, sample_result 4, sample_result 3] \<and>
   length [sample_result 1, sample_result 2, sample_result 3, sample_result 4, sample_result 5]
     = MAX_HISTORY_SIZE \<and>
   addToCommandHistory
     [sample_result 1, sample_result 2, sample_result 3, sample_result 4, sample_result 5]
     (sample_result 6)
   = [sample_result 6, sample_result 1, sample_result 2, sample_result 3, sample_result 4]"
  using
    history_bounded_most_recent_first
      [of "[]" "sample_result 0"
          "[sample_result 1, sample_result 2, sample_result 3, sample_result 4,
            sample_result 5, sample_result 6, sample_result 7]"]
    history_bounded_most_recent_first
      [of "[sample_result 1, sample_result 2, sample_result 3, sample_result 4, sample_result 5]"
          "sample_result 6" "[]"]
  by (simp add: MAX_HISTORY_SIZE_def)

section \<open>Formatting the history\<close>

lemma join_nonempty: "xs \<noteq> [] \<Longrightarrow> hd xs \<noteq> [] \<Longrightarrow> join sep xs \<noteq> []"
  by (induction sep xs rule: join.induct) auto

lemma formatEntry_nonempty: "formatEntry t n i r \<noteq> []"
  by (simp add: formatEntry_def Let_def)

lemma formatCommandHistoryForAI_nonempty: "formatCommandHistoryForAI t h \<noteq> []"
proof (cases h)
  case Nil
  then show ?thesis by (simp add: formatCommandHistoryForAI_def)
next
  case (Cons r rs)
  have "formatCommandHistoryForAI t h =
        join [newline]
          (map (\<lambda>(index, result). formatEntry t (length h) index result)
             (zip [0 ..< length h] h))"
    using Cons by (simp add: formatCommandHistoryForAI_def)
  moreover have "zip [0 ..< length h] h = (0, r) # zip [1 ..< length h] rs"
    using Cons by (simp add: upt_conv_Cons del: upt_Suc)
  ultimately show ?thesis
    by (simp add: join_nonempty formatEntry_nonempty)
qed

text \<open>
  C10. For the empty history \<open>formatCommandHistoryForAI\<close> returns the text
  \<open>No command history available.\<close>, which is not empty, and the formatted history of
  any buffer is not empty either.
\<close>

theorem format_empty_history:
  "formatCommandHistoryForAI t [] = ''No command history available.'' \<and>
   formatCommandHistoryForAI t [] \<noteq> [] \<and>
   formatCommandHistoryForAI t h \<noteq> []"
  by (simp add: formatCommandHistoryForAI_nonempty) (simp add: formatCommandHistoryForAI_def)

lemma trimOutput_long:
  "15 < length (split_nl output) \<Longrightarrow>
   trimOutput output 15
   = join [newline]
       (take 7 (split_nl output)
        @ [''... ('' @ show_nat (length (split_nl output) - 15) @ '' more lines) ...'']
        @ drop (length (split_nl output) - 7) (split_nl output))"
  by (simp add: trimOutput_def slice_last_def Let_def)

text \<open>
  C6 fails on the code. For an output of sixteen lines \<open>trimOutput\<close> keeps the first
  seven lines and the last seven, so the lines \<open>8\<close> and \<open>9\<close> are left out, and the
  marker between them announces one line: it counts \<open>lines.length - maxLines\<close>, and
  with the budget 15 the two halves hold 14 lines.
\<close>

theorem trimOutput_marker_undercounts:
  "split_nl sixteen_lines = map show_nat [1 ..< 17] \<and>
   split_nl (trimOutput sixteen_lines 15)
     = map show_nat [1 ..< 8] @ [''... (1 more lines) ...''] @ map show_nat [10 ..< 17] \<and>
   length (filter (\<lambda>l. l \<notin> set (split_nl (trimOutput sixteen_lines 15)))
             (split_nl sixteen_lines)) = 2"
  by code_simp

section \<open>Running the decoder on the sample frames\<close>

lemma split_frames_frame_ls: "split_frames (frame payload_ls) = [payload_ls, []]"
  by code_simp

lemma split_frames_frame_la: "split_frames (frame payload_la) = [payload_la, []]"
  by code_simp

lemma split_frames_frame_done: "split_frames (frame payload_done) = [payload_done, []]"
  by code_simp

lemma split_frames_all:
  "split_frames (frame payload_ls @ frame payload_la @ frame payload_done)
   = [payload_ls, payload_la, payload_done, []]"
  by code_simp

lemma json_parse_ls:
  "json_parse (trim (strip_data_marker payload_ls))
   = Some (JObj [(''choices'', JArr [JObj [(''delta'', JObj [(''content'', JStr ''ls'')])]])])"
  by code_simp

lemma json_parse_la:
  "json_parse (trim (strip_data_marker payload_la))
   = Some (JObj [(''choices'', JArr [JObj [(''delta'', JObj [(''content'', JStr '' -la'')])]])])"
  by code_simp

lemma parseContent_ls: "parseContent cfg payload_ls = JStr ''ls''"
  unfolding parseContent_def Let_def json_parse_ls
  by (simp add: chain_def get_prop_def index0_def)

lemma parseContent_la: "parseContent cfg payload_la = JStr '' -la''"
  unfolding parseContent_def Let_def json_parse_la
  by (simp add: chain_def get_prop_def index0_def)

lemma sample_payload_facts:
  "includes_str ''[DONE]'' payload_ls = False"
  "includes_str ''[DONE]'' payload_la = False"
  "includes_str ''[DONE]'' payload_done = True"
  "includes_str ''[DONE]'' [] = False"
  "prefix ''data:'' payload_ls = True"
  "prefix ''data:'' payload_la = True"
  "prefix ''data:'' [] = False"
  by code_simp+

lemmas reader_defs =
  readData_def handle_def start_def onChunk_def onEnd_def processPayload_def
  matchPrefix_def excludedPrefix_def truthyPrefix_def emit_def truthy_def stripContent_def
  stripRegexPatterns_def writer_def finish_def cleanup_def resolve_def invoke_def
  stopTextStreamKeys_def Let_def

lemmas sample_runs =
  split_frames_frame_ls split_frames_frame_la split_frames_frame_done split_frames_all
  parseContent_ls parseContent_la sample_payload_facts

text \<open>
  C8. The three frames of the scenario, arriving one per chunk or all in one chunk, with
  no exclusion pattern configured: whatever the mode and the listeners registered before,
  \<open>readData\<close> resolves with \<open>ls -la\<close>.
\<close>

theorem end_to_end_ls_la:
  "resolved
     (readData
        \<lparr>errorString = e, newRegExp = n, stoppedNotice = a, completeNotice = b,
         isAnalysis = an, excluded = [], numberString = ns, stripNonString = sn\<rparr>
        priors
        [Chunk (frame payload_ls), Chunk (frame payload_la), Chunk (frame payload_done)])
   = Some ''ls -la'' \<and>
   resolved
     (readData
        \<lparr>errorString = e, newRegExp = n, stoppedNotice = a, completeNotice = b,
         isAnalysis = an, excluded = [], numberString = ns, stripNonString = sn\<rparr>
        priors
        [Chunk (frame payload_ls @ frame payload_la @ frame payload_done)])
   = Some ''ls -la''"
  by (simp add: reader_defs sample_runs)

text \<open>
  C1 fails on the code. In analysis mode with one listener registered before, an
  interrupt behind the first frame resolves the promise with \<open>ls\<close> and leaves the
  reader's own listener in place: the listener of before is not registered again, a
  second interrupt is answered by the reader once more and does not reach it. When the
  stream fails, nothing is resolved and nothing is restored. The completion marker, a
  stop key and the end of the stream restore the listener.
\<close>

theorem interrupt_leaves_analysis_handler:
  "resolved (readData (plain\<lparr>isAnalysis := True\<rparr>) [7] [Chunk (frame payload_ls), Sigint])
     = Some ''ls'' \<and>
   sigintListeners (readData (plain\<lparr>isAnalysis := True\<rparr>) [7] [Chunk (frame payload_ls), Sigint])
     = [AnalysisHandler] \<and>
   invoked (readData (plain\<lparr>isAnalysis := True\<rparr>) [7]
              [Chunk (frame payload_ls), Sigint, Sigint]) = [] \<and>
   written (readData (plain\<lparr>isAnalysis := True\<rparr>) [7]
              [Chunk (frame payload_ls), Sigint, Sigint])
     = [''ls'', [newline, newline] @ ''Analysis stopped'' @ [newline],
        [newline, newline] @ ''Analysis stopped'' @ [newline]] \<and>
   resolved (readData (plain\<lparr>isAnalysis := True\<rparr>) [7] [Chunk (frame payload_ls), Fail])
     = None \<and>
   sigintListeners (readData (plain\<lparr>isAnalysis := True\<rparr>) [7] [Chunk (frame payload_ls), Fail])
     = [AnalysisHandler] \<and>
   sigintListeners (readData (plain\<lparr>isAnalysis := True\<rparr>) [7]
                      [Chunk (frame payload_ls), Chunk (frame payload_done)])
     = [Prior 7] \<and>
   sigintListeners (readData (plain\<lparr>isAnalysis := True\<rparr>) [7]
                      [Chunk (frame payload_ls), Keypress ''q'', Chunk (frame payload_la)])
     = [Prior 7] \<and>
   sigintListeners (readData (plain\<lparr>isAnalysis := True\<rparr>) [7] [Chunk (frame payload_ls), End])
     = [Prior 7]"
  by (simp add: reader_defs sample_runs plain_def)

section \<open>A resolved promise stays resolved\<close>

lemma resolved_resolve: "resolved s = Some v \<Longrightarrow> resolved (resolve w s) = Some v"
  by (simp add: resolve_def)

lemma resolved_finish: "resolved s = Some v \<Longrightarrow> resolved (finish cfg s) = Some v"
  by (simp add: finish_def cleanup_def writer_def resolve_def Let_def)

lemma resolved_emit: "resolved (snd (emit cfg content s)) = resolved s"
  by (simp add: emit_def writer_def Let_def split: option.splits)

lemma resolved_processPayload:
  "resolved s = Some v \<Longrightarrow> resolved (snd (processPayload cfg payload s)) = Some v"
  by (auto simp: processPayload_def resolved_finish resolved_emit Let_def
      split: option.splits)

lemma resolved_processPayloads:
  "resolved s = Some v \<Longrightarrow> resolved (snd (processPayloads cfg payloads s)) = Some v"
proof (induction payloads arbitrary: s)
  case Nil
  then show ?case by simp
next
  case (Cons payload payloads)
  obtain c s' where step: "processPayload cfg payload s = (c, s')"
    by (cases "processPayload cfg payload s")
  have "resolved s' = Some v"
    using resolved_processPayload [OF Cons.prems, of cfg payload] step by simp
  then show ?case
    using Cons.IH [of s'] step by (cases c) simp_all
qed

lemma resolved_onChunk: "resolved s = Some v \<Longrightarrow> resolved (onChunk cfg chunk s) = Some v"
  using resolved_processPayloads [of s v cfg "split_frames chunk"]
  by (auto simp: onChunk_def split: prod.splits ctl.splits)

lemma resolved_invoke: "resolved s = Some v \<Longrightarrow> resolved (invoke cfg s l) = Some v"
  by (cases l) (simp_all add: invoke_def writer_def resolve_def Let_def)

lemma resolved_invokes: "resolved s = Some v \<Longrightarrow> resolved (foldl (invoke cfg) s ls) = Some v"
  by (induction ls arbitrary: s) (simp_all add: resolved_invoke)

lemma resolved_handle: "resolved s = Some v \<Longrightarrow> resolved (handle cfg s ev) = Some v"
  by (cases ev)
    (simp_all add: handle_def resolved_onChunk resolved_invokes onEnd_def cleanup_def
      resolve_def Let_def)

lemma resolved_handles:
  "resolved s = Some v \<Longrightarrow> resolved (foldl (handle cfg) s events) = Some v"
  by (induction events arbitrary: s) (simp_all add: resolved_handle)

section \<open>Stopping with a key\<close>

lemma split_frames_nonempty: "split_frames chunk \<noteq> []"
  by (induction chunk rule: split_frames.induct) (auto split: list.splits)

lemma processPayload_stop:
  "stopTextStream s \<Longrightarrow> processPayload cfg payload s = (Return, finish cfg s)"
  by (simp add: processPayload_def)

lemma onChunk_stop: "stopTextStream s \<Longrightarrow> onChunk cfg chunk s = finish cfg s"
  by (cases "split_frames chunk")
    (simp_all add: onChunk_def split_frames_nonempty processPayload_stop)

lemma stop_again: "stopTextStream s \<Longrightarrow> s\<lparr>stopTextStream := True\<rparr> = s"
proof -
  assume "stopTextStream s"
  then have "s\<lparr>stopTextStream := True\<rparr> = s\<lparr>stopTextStream := stopTextStream s\<rparr>"
    by simp
  then show ?thesis by simp
qed

lemma keypresses_after_stop:
  "stopTextStream s \<Longrightarrow> foldl (handle cfg) s (map Keypress keys) = s"
  by (induction keys) (simp_all add: handle_def stop_again)

text \<open>
  C7. The reader is waiting for the next chunk, nothing has resolved its promise, and a
  stop key (\<open>q\<close> or \<open>escape\<close>) is pressed. Whatever keys follow, at the next chunk the
  promise is resolved, without an exception, with exactly the text accumulated when the
  key was pressed: the chunk behind the key contributes nothing to the accumulated text
  and no fragment to the writer, and later events do not change the resolved value.
\<close>

theorem keypress_stop_resolves:
  assumes "key \<in> set stopTextStreamKeys"
    and "phase (readData cfg priors pre) = Reading"
    and "\<not> killed (readData cfg priors pre)"
    and "resolved (readData cfg priors pre) = None"
  shows "resolved (readData cfg priors (pre @ Keypress key # map Keypress keys @ Chunk chunk # post))
           = Some (data (readData cfg priors pre)) \<and>
         data (readData cfg priors (pre @ Keypress key # map Keypress keys @ [Chunk chunk]))
           = data (readData cfg priors pre) \<and>
         written (readData cfg priors (pre @ Keypress key # map Keypress keys @ [Chunk chunk]))
           = written (readData cfg priors pre)
             @ (if stoppedByUser (readData cfg priors pre)
                then [newline # completeNotice cfg @ [newline]] else []) \<and>
         phase (readData cfg priors (pre @ Keypress key # map Keypress keys @ [Chunk chunk]))
           = Returned"
proof -
  define s where "s = readData cfg priors pre"
  define s1 where "s1 = s\<lparr>stopTextStream := True\<rparr>"
  have key: "handle cfg s (Keypress key) = s1"
    using assms(1,3) by (simp add: handle_def s_def s1_def)
  have keys: "foldl (handle cfg) s1 (map Keypress keys) = s1"
    by (rule keypresses_after_stop) (simp add: s1_def)
  have chunk: "handle cfg s1 (Chunk chunk) = finish cfg s1"
    using assms(2,3) by (simp add: handle_def s_def s1_def onChunk_stop)
  have run: "readData cfg priors (pre @ Keypress key # map Keypress keys @ [Chunk chunk])
             = finish cfg s1"
    by (simp add: readData_def s_def [symmetric, unfolded readData_def] key keys chunk)
  have fin: "resolved (finish cfg s1) = Some (data s)"
    using assms(4)
    by (simp add: finish_def cleanup_def writer_def resolve_def Let_def s_def s1_def)
  have "readData cfg priors (pre @ Keypress key # map Keypress keys @ Chunk chunk # post)
        = foldl (handle cfg) (finish cfg s1) post"
    using run by (simp add: readData_def)
  then have "resolved (readData cfg priors
                 (pre @ Keypress key # map Keypress keys @ Chunk chunk # post)) = Some (data s)"
    using resolved_handles [OF fin] by simp
  moreover have "data (finish cfg s1) = data s"
    by (simp add: finish_def cleanup_def writer_def resolve_def Let_def s1_def
        split: option.splits)
  moreover have "written (finish cfg s1)
                 = written s @ (if stoppedByUser s
                                then [newline # completeNotice cfg @ [newline]] else [])"
    by (simp add: finish_def cleanup_def writer_def resolve_def Let_def s1_def
        split: option.splits)
  moreover have "phase (finish cfg s1) = Returned"
    by (simp add: finish_def Let_def)
  ultimately show ?thesis
    using run by (simp add: s_def)
qed

theorem keypress_stop_resolves_witness:
  "''q'' \<in> set stopTextStreamKeys \<and>
   phase (readData plain [] [Chunk (frame payload_ls), Chunk (frame payload_number)]) = Reading \<and>
   \<not> killed (readData plain [] [Chunk (frame payload_ls), Chunk (frame payload_number)]) \<and>
   resolved (readData plain [] [Chunk (frame payload_ls), Chunk (frame payload_number)]) = None \<and>
   resolved
     (readData plain []
        [Chunk (frame payload_ls), Chunk (frame payload_number), Keypress ''q'', Keypress ''x'',
         Chunk (frame payload_la), Chunk (frame payload_done)]) = Some ''ls42''"
proof -
  have key: "''q'' \<in> set stopTextStreamKeys"
    by (simp add: stopTextStreamKeys_def)
  have reading:
    "phase (readData plain [] [Chunk (frame payload_ls), Chunk (frame payload_number)]) = Reading"
    by code_simp
  have alive:
    "\<not> killed (readData plain [] [Chunk (frame payload_ls), Chunk (frame payload_number)])"
    by code_simp
  have pending:
    "resolved (readData plain [] [Chunk (frame payload_ls), Chunk (frame payload_number)]) = None"
    by code_simp
  have acc:
    "data (readData plain [] [Chunk (frame payload_ls), Chunk (frame payload_number)]) = ''ls42''"
    by code_simp
  have "resolved
     (readData plain []
        ([Chunk (frame payload_ls), Chunk (frame payload_number)] @ Keypress ''q''
           # map Keypress [''x''] @ Chunk (frame payload_la) # [Chunk (frame payload_done)]))
     = Some (data (readData plain [] [Chunk (frame payload_ls), Chunk (frame payload_number)]))"
    by (rule keypress_stop_resolves [OF key reading alive pending, THEN conjunct1])
  then have stopped: "resolved
     (readData plain []
        [Chunk (frame payload_ls), Chunk (frame payload_number), Keypress ''q'', Keypress ''x'',
         Chunk (frame payload_la), Chunk (frame payload_done)]) = Some ''ls42''"
    unfolding acc by simp
  show ?thesis
    by (intro conjI key reading alive pending stopped)
qed

section \<open>The exit of the worker\<close>

text \<open>
  C9 as stated fails: a request has received a chunk and is waiting for more, the worker
  exits with code 0, and no error is emitted on the response.
\<close>

theorem worker_exit_zero_is_silent:
  "emitted (generateCompletionWithFork [] [Message (ChunkMsg ''ls''), Exit (Some 0)])
   = [DataEv ''ls'']"
  by (simp add: generateCompletionWithFork_def onWorker_def sent_def messageHandler_def
      exitHandler_def emitEv_def)

text \<open>
  C9, amended. When the worker exits with a code other than 0 (\<open>null\<close> included), the
  response of the request emits one more event, an error whose message is
  \<open>AI process exited with code\<close> followed by the code; when it exits with code 0,
  nothing is emitted.
\<close>

theorem worker_exit_error:
  "(c \<noteq> Some 0 \<longrightarrow>
      emitted (generateCompletionWithFork trace (events @ [Exit c]))
      = emitted (generateCompletionWithFork trace events) @ [ErrorEv (exitError trace c)]) \<and>
   message (exitError trace c) = ''AI process exited with code '' @ show_code c \<and>
   emitted (generateCompletionWithFork trace (events @ [Exit (Some 0)]))
   = emitted (generateCompletionWithFork trace events)"
  by (simp add: generateCompletionWithFork_def onWorker_def exitHandler_def emitEv_def
      exitError_def)

theorem worker_exit_error_witness:
  "Some 1 \<noteq> Some (0 :: int) \<and>
   emitted (generateCompletionWithFork [] [Message (ChunkMsg ''ls''), Exit (Some 1)])
   = [DataEv ''ls'',
      ErrorEv \<lparr>message = ''AI process exited with code 1'', name = ''Error'', code = None,
               stack = []\<rparr>]"
proof -
  have "show_code (Some 1) = ''1''"
    by code_simp
  moreover have "emitted (generateCompletionWithFork [] [Message (ChunkMsg ''ls'')])
                 = [DataEv ''ls'']"
    by (simp add: generateCompletionWithFork_def onWorker_def sent_def messageHandler_def
        emitEv_def)
  ultimately show ?thesis
    using worker_exit_error [of "Some 1" "[]" "[Message (ChunkMsg ''ls'')]"]
    by (simp add: exitError_def)
qed

section \<open>Nothing is written before the start\<close>

lemma processPayload_silent:
  assumes "silent cfg s" and "phase s = Reading"
    and "unmatched cfg (buffer s) (payload # rest)"
    and "processPayload cfg payload s = (c, s')"
  shows "silent cfg s' \<and> c \<noteq> Break \<and> phase s' = (if c = Return then Returned else Reading) \<and>
         (c = Next \<longrightarrow> unmatched cfg (buffer s') rest)"
  using assms
  by (auto simp: silent_def notices_def processPayload_def finish_def cleanup_def emit_def
      writer_def resolve_def Let_def split: if_splits option.splits)

lemma processPayloads_silent:
  assumes "silent cfg s" and "phase s = Reading"
    and "unmatched cfg (buffer s) (payloads @ rest)"
    and "processPayloads cfg payloads s = (c, s')"
  shows "silent cfg s' \<and> c \<noteq> Break \<and> phase s' = (if c = Return then Returned else Reading) \<and>
         (c = Next \<longrightarrow> unmatched cfg (buffer s') rest)"
  using assms
proof (induction payloads arbitrary: s)
  case Nil
  then show ?case by auto
next
  case (Cons payload payloads)
  obtain c1 s1 where step: "processPayload cfg payload s = (c1, s1)"
    by (cases "processPayload cfg payload s")
  have scan: "unmatched cfg (buffer s) (payload # payloads @ rest)"
    using Cons.prems(3) by simp
  note first = processPayload_silent [OF Cons.prems(1,2) scan step]
  show ?case
  proof (cases "c1 = Next")
    case True
    then have "processPayloads cfg payloads s1 = (c, s')"
      using Cons.prems(4) step by simp
    moreover have "silent cfg s1" "phase s1 = Reading" "unmatched cfg (buffer s1) (payloads @ rest)"
      using first True by auto
    ultimately show ?thesis
      using Cons.IH by blast
  next
    case False
    then have "c = c1" and "s' = s1"
      using Cons.prems(4) step by (cases c1; simp)+
    then show ?thesis using first False by simp
  qed
qed

lemma invokes_silent:
  "silent cfg s \<Longrightarrow> set ls \<subseteq> set (sigintListeners s) \<Longrightarrow>
   silent cfg (foldl (invoke cfg) s ls) \<and>
   phase (foldl (invoke cfg) s ls) = phase s \<and> buffer (foldl (invoke cfg) s ls) = buffer s \<and>
   killed (foldl (invoke cfg) s ls) = killed s"
proof (induction ls arbitrary: s)
  case Nil
  then show ?case by simp
next
  case (Cons l ls)
  have "silent cfg (invoke cfg s l) \<and> sigintListeners (invoke cfg s l) = sigintListeners s \<and>
        phase (invoke cfg s l) = phase s \<and> buffer (invoke cfg s l) = buffer s \<and>
        killed (invoke cfg s l) = killed s"
    using Cons.prems
    by (cases l)
      (auto simp: silent_def notices_def invoke_def writer_def resolve_def Let_def
        split: option.splits)
  then show ?case
    using Cons.IH [of "invoke cfg s l"] Cons.prems by simp
qed

lemma handle_silent:
  assumes "silent cfg s"
    and "phase s = Reading \<and> \<not> killed s \<longrightarrow> unmatched cfg (buffer s) (payloadsOf (ev # events))"
  shows "silent cfg (handle cfg s ev) \<and>
         (phase (handle cfg s ev) = Reading \<and> \<not> killed (handle cfg s ev) \<longrightarrow>
            unmatched cfg (buffer (handle cfg s ev)) (payloadsOf events))"
proof (cases ev)
  case (Chunk chunk)
  show ?thesis
  proof (cases "phase s = Reading \<and> \<not> killed s")
    case True
    obtain c s' where run: "processPayloads cfg (split_frames chunk) s = (c, s')"
      by (cases "processPayloads cfg (split_frames chunk) s")
    have "unmatched cfg (buffer s) (split_frames chunk @ payloadsOf events)"
      using assms(2) True Chunk by (simp add: payloadsOf_def)
    from processPayloads_silent [OF assms(1) _ this run] True
    have "silent cfg s' \<and> c \<noteq> Break \<and> phase s' = (if c = Return then Returned else Reading) \<and>
         (c = Next \<longrightarrow> unmatched cfg (buffer s') (payloadsOf events))"
      by simp
    then show ?thesis
      using True run Chunk by (cases c) (auto simp: handle_def onChunk_def silent_def)
  next
    case False
    then show ?thesis using assms(1) Chunk by (auto simp: handle_def)
  qed
next
  case End
  then show ?thesis
    using assms
    by (auto simp: handle_def onEnd_def silent_def cleanup_def resolve_def Let_def
        split: option.splits)
next
  case Fail
  then show ?thesis using assms by (auto simp: handle_def silent_def)
next
  case (Keypress k)
  then show ?thesis using assms by (auto simp: handle_def silent_def payloadsOf_def)
next
  case Sigint
  then show ?thesis
    using assms invokes_silent [OF assms(1), of "sigintListeners s"]
    by (auto simp: handle_def silent_def payloadsOf_def)
qed

lemma handles_silent:
  assumes "silent cfg s"
    and "phase s = Reading \<and> \<not> killed s \<longrightarrow> unmatched cfg (buffer s) (payloadsOf events)"
  shows "silent cfg (foldl (handle cfg) s events)"
  using assms
proof (induction events arbitrary: s)
  case Nil
  then show ?case by simp
next
  case (Cons ev events)
  from handle_silent [OF Cons.prems] Cons.IH [of "handle cfg s ev"] show ?case by simp
qed

lemma readData_silent:
  "unmatched cfg [] (payloadsOf events) \<Longrightarrow> silent cfg (readData cfg priors events)"
  unfolding readData_def
  by (rule handles_silent) (auto simp: silent_def start_def Let_def)

lemma dataStart_by_match:
  "\<not> dataStart s \<Longrightarrow> dataStart (snd (processPayload cfg payload s)) \<Longrightarrow>
   \<exists>t. js_string (numberString cfg) (parseContent cfg payload) = Some t \<and>
       matchPrefix cfg (buffer s @ t) = Some True"
  by (auto simp: processPayload_def finish_def cleanup_def writer_def resolve_def emit_def
      Let_def split: if_splits option.splits)

lemma written_before_start:
  "\<not> dataStart s \<Longrightarrow>
   written (snd (processPayload cfg payload s)) = written s \<or>
   (stoppedByUser s \<and> fst (processPayload cfg payload s) = Return \<and>
    written (snd (processPayload cfg payload s))
      = written s @ [newline # completeNotice cfg @ [newline]]) \<or>
   (\<exists>t. js_string (numberString cfg) (parseContent cfg payload) = Some t \<and>
        matchPrefix cfg (buffer s @ t) = Some True \<and> truthyPrefix cfg = False)"
  by (auto simp: processPayload_def finish_def cleanup_def writer_def resolve_def emit_def
      Let_def split: if_splits option.splits)

lemma no_pattern_starts_at_once:
  "excluded cfg = [] \<Longrightarrow> \<not> dataStart s \<Longrightarrow> \<not> stopTextStream s \<Longrightarrow>
   includes_str ''[DONE]'' payload = False \<Longrightarrow> prefix ''data:'' payload \<Longrightarrow>
   parseContent cfg payload = JStr content \<Longrightarrow>
   fst (processPayload cfg payload s) = Next \<and>
   dataStart (snd (processPayload cfg payload s)) \<and>
   written (snd (processPayload cfg payload s))
     = written s @ (if content = [] then [] else [content]) \<and>
   data (snd (processPayload cfg payload s)) = data s @ content"
  by (simp add: processPayload_def matchPrefix_def excludedPrefix_def truthyPrefix_def
      emit_def truthy_def stripContent_def writer_def stripRegexPatterns_def Let_def)

text \<open>
  C4 as stated fails. In analysis mode with \<open>shellCodeExclusions\<close>, after a first frame
  whose text \<open>ls\<close> does not match the opening fence, an interrupt passes the notice
  \<open>Analysis stopped\<close> to the writer: the writer has received text although the first
  exclusion pattern has matched nothing and emission has not started.
\<close>

theorem notice_before_start:
  "written (readData (shell\<lparr>isAnalysis := True\<rparr>) [] [Chunk (frame payload_ls), Sigint])
     = [[newline, newline] @ ''Analysis stopped'' @ [newline]] \<and>
   dataStart (readData (shell\<lparr>isAnalysis := True\<rparr>) [] [Chunk (frame payload_ls), Sigint])
     = False \<and>
   unmatched (shell\<lparr>isAnalysis := True\<rparr>) []
     (payloadsOf [Chunk (frame payload_ls), Sigint]) = True \<and>
   rx_search fence_newline_rx [] ''ls'' = False"
  by code_simp

text \<open>
  C4, amended. Whatever the events, as long as the look-behind text of the payloads
  delivered has not matched the first exclusion pattern, no text is accumulated and the
  writer has received no content: outside analysis mode nothing at all, in analysis mode
  nothing but the two notices of an interrupt. Emission starts only in a step in which
  the look-behind buffer, with the text of that step's content appended, matches the
  first exclusion pattern, and a payload processed before the start leads to a call of
  the writer only in that step and only if no pattern (or the empty string) is
  configured: with a pattern the loop breaks before writing. With no exclusion pattern
  the first data payload of a read starts emission, and its fragment is written unless it
  is empty.
\<close>

theorem emission_waits_for_start:
  "(unmatched cfg [] (payloadsOf events) \<longrightarrow>
      data (readData cfg priors events) = [] \<and>
      \<not> dataStart (readData cfg priors events) \<and>
      (if isAnalysis cfg
       then set (written (readData cfg priors events))
              \<subseteq> {[newline, newline] @ stoppedNotice cfg @ [newline],
                  newline # completeNotice cfg @ [newline]}
       else written (readData cfg priors events) = [])) \<and>
   (\<not> dataStart s \<and> dataStart (snd (processPayload cfg payload s)) \<longrightarrow>
      (\<exists>t. js_string (numberString cfg) (parseContent cfg payload) = Some t \<and>
           matchPrefix cfg (buffer s @ t) = Some True)) \<and>
   (\<not> dataStart s \<longrightarrow>
      written (snd (processPayload cfg payload s)) = written s \<or>
      (stoppedByUser s \<and> fst (processPayload cfg payload s) = Return \<and>
       written (snd (processPayload cfg payload s))
         = written s @ [newline # completeNotice cfg @ [newline]]) \<or>
      (\<exists>t. js_string (numberString cfg) (parseContent cfg payload) = Some t \<and>
           matchPrefix cfg (buffer s @ t) = Some True \<and> truthyPrefix cfg = False)) \<and>
   (excluded cfg = [] \<and> includes_str ''[DONE]'' payload = False \<and> prefix ''data:'' payload \<and>
    parseContent cfg payload = JStr content \<longrightarrow>
      fst (processPayload cfg payload (start cfg priors)) = Next \<and>
      dataStart (snd (processPayload cfg payload (start cfg priors))) \<and>
      written (snd (processPayload cfg payload (start cfg priors)))
        = (if content = [] then [] else [content]) \<and>
      data (snd (processPayload cfg payload (start cfg priors))) = content)"
proof -
  have run: "data (readData cfg priors events) = [] \<and>
      \<not> dataStart (readData cfg priors events) \<and>
      (if isAnalysis cfg
       then set (written (readData cfg priors events))
              \<subseteq> {[newline, newline] @ stoppedNotice cfg @ [newline],
                  newline # completeNotice cfg @ [newline]}
       else written (readData cfg priors events) = [])"
    if "unmatched cfg [] (payloadsOf events)"
    using readData_silent [OF that, of priors] by (auto simp: silent_def notices_def)
  have fresh: "\<not> dataStart (start cfg priors)" "\<not> stopTextStream (start cfg priors)"
    "written (start cfg priors) = []" "data (start cfg priors) = []"
    by (simp_all add: start_def Let_def)
  have first: "fst (processPayload cfg payload (start cfg priors)) = Next \<and>
      dataStart (snd (processPayload cfg payload (start cfg priors))) \<and>
      written (snd (processPayload cfg payload (start cfg priors)))
        = (if content = [] then [] else [content]) \<and>
      data (snd (processPayload cfg payload (start cfg priors))) = content"
    if "excluded cfg = []" "includes_str ''[DONE]'' payload = False" "prefix ''data:'' payload"
      "parseContent cfg payload = JStr content"
    using no_pattern_starts_at_once [OF that(1) fresh(1,2) that(2,3,4)] fresh(3,4) by simp
  show ?thesis
    using run written_before_start [of s cfg payload] dataStart_by_match [of s cfg payload]
      first
    by blast
qed

theorem emission_waits_for_start_witness:
  "unmatched shell [] (payloadsOf [Chunk (frame payload_ls)]) \<and>
   isAnalysis shell = False \<and>
   written (readData shell [] [Chunk (frame payload_ls)]) = [] \<and>
   data (readData shell [] [Chunk (frame payload_ls)]) = [] \<and>
   excluded plain = [] \<and> includes_str ''[DONE]'' payload_ls = False \<and>
   prefix ''data:'' payload_ls \<and> parseContent plain payload_ls = JStr ''ls'' \<and>
   \<not> dataStart (start plain []) \<and>
   written (snd (processPayload plain payload_ls (start plain []))) = [''ls''] \<and>
   dataStart (snd (processPayload plain payload_ls (start plain [])))"
proof -
  have scan: "unmatched shell [] (payloadsOf [Chunk (frame payload_ls)])"
    by code_simp
  have mode: "isAnalysis shell = False" "excluded plain = []"
    by (simp_all add: shell_def plain_def)
  have fresh: "\<not> dataStart (start plain [])"
    by (simp add: start_def)
  show ?thesis
    using scan mode fresh sample_payload_facts parseContent_ls [of plain]
      emission_waits_for_start
        [of shell "[Chunk (frame payload_ls)]" "[]" "start plain []" payload_ls "''ls''"]
      emission_waits_for_start
        [of plain "[]" "[]" "start plain []" payload_ls "''ls''"]
    by simp
qed

section \<open>What stripping removes\<close>

lemma set_remove_all: "set (remove_all r left t) \<subseteq> set t"
proof (induction r left t rule: remove_all.induct)
  case (1 r left)
  then show ?case by simp
next
  case (2 r left c cs)
  show ?case
  proof (cases "r left (c # cs)")
    case None
    then show ?thesis using 2(1) by auto
  next
    case (Some n)
    show ?thesis
    proof (cases "n = 0")
      case True
      then show ?thesis using Some 2(2) by auto
    next
      case False
      have "set (drop n (c # cs)) \<subseteq> set (c # cs)"
        by (rule set_drop_subset)
      then show ?thesis using Some False 2(3) [OF Some False] by auto
    qed
  qed
qed

lemma remove_all_literal_char: "ch \<notin> set (remove_all (literal_rx [ch]) left t)"
  by (induction t arbitrary: left) (auto simp: literal_rx_def)

lemma remove_all_literal_absent:
  "ch \<notin> set t \<Longrightarrow> remove_all (literal_rx [ch]) left t = t"
  by (induction t arbitrary: left) (auto simp: literal_rx_def)

lemma set_strip_one: "set (strip_one t p) \<subseteq> set t"
  by (auto simp: strip_one_def dest: subsetD [OF set_remove_all]
      split: option.splits pattern.splits)

lemma set_strip_all: "set (foldl strip_one t ps) \<subseteq> set t"
proof (induction ps arbitrary: t)
  case Nil
  then show ?case by simp
next
  case (Cons p ps)
  have "set (foldl strip_one (strip_one t p) ps) \<subseteq> set (strip_one t p)"
    by (rule Cons.IH)
  then show ?case using set_strip_one [of t p] by auto
qed

lemma strip_removes_char:
  assumes "Some (Literal [ch]) \<in> set ps"
  shows "ch \<notin> set (stripRegexPatterns t ps)"
proof -
  obtain ps1 ps2 where ps: "ps = ps1 @ Some (Literal [ch]) # ps2"
    using assms by (auto dest: split_list)
  have "ch \<notin> set (strip_one (foldl strip_one t ps1) (Some (Literal [ch])))"
    by (simp add: strip_one_def remove_all_literal_char)
  then show ?thesis
    using set_strip_all [of "strip_one (foldl strip_one t ps1) (Some (Literal [ch]))" ps2]
    by (auto simp: stripRegexPatterns_def ps)
qed

text \<open>A pass cuts out the leftmost match and goes on behind it.\<close>

lemma remove_all_leftmost:
  assumes "\<And>i. i < length a \<Longrightarrow> r (left @ take i a) (drop i a @ m @ b) = None"
    and "r (left @ a) (m @ b) = Some (length m)" and "m \<noteq> []"
  shows "remove_all r left (a @ m @ b) = a @ remove_all r (left @ a @ m) b"
  using assms
proof (induction a arbitrary: left)
  case Nil
  then obtain c cs where m: "m = c # cs" by (cases m) auto
  show ?case using Nil(2) by (simp add: m)
next
  case (Cons x a)
  have here: "r left (x # a @ m @ b) = None"
    using Cons.prems(1) [of 0] by simp
  have later: "r ((left @ [x]) @ take i a) (drop i a @ m @ b) = None" if "i < length a" for i
    using Cons.prems(1) [of "Suc i"] that by simp
  have "remove_all r (left @ [x]) (a @ m @ b) = a @ remove_all r ((left @ [x]) @ a @ m) b"
    using later Cons.prems(2,3) by (intro Cons.IH) simp_all
  then show ?case using here by simp
qed

subsection \<open>The fence patterns\<close>

lemma drop_Cons_member: "drop k t = c # cs \<Longrightarrow> c \<in> set t"
proof -
  assume "drop k t = c # cs"
  then have "c \<in> set (drop k t)" by simp
  then show ?thesis by (rule in_set_dropD)
qed

lemma fence_newline_rx_newline: "fence_newline_rx left t = Some n \<Longrightarrow> newline \<in> set t"
  by (auto simp: fence_newline_rx_def Let_def split: if_splits list.splits
      dest: drop_Cons_member)

lemma rx_search_fence_newline: "rx_search fence_newline_rx left t \<Longrightarrow> newline \<in> set t"
proof (induction t arbitrary: left)
  case Nil
  then show ?case by (auto split: option.splits dest: fence_newline_rx_newline)
next
  case (Cons c cs)
  then show ?case by (auto split: option.splits dest: fence_newline_rx_newline)
qed

lemma remove_fence_newline_absent:
  "newline \<notin> set t \<Longrightarrow> remove_all fence_newline_rx left t = t"
proof (induction t arbitrary: left)
  case Nil
  then show ?case by simp
next
  case (Cons c cs)
  have "fence_newline_rx left (c # cs) = None"
    using Cons.prems fence_newline_rx_newline [of left "c # cs"]
    by (cases "fence_newline_rx left (c # cs)") auto
  then show ?case using Cons by simp
qed

lemma rx_search_fence_Nil: "rx_search fence_rx left [] = False"
  by (simp add: fence_rx_def backticks_def)

lemma rx_search_fence_Cons:
  "rx_search fence_rx left (c # cs) = (prefix backticks (c # cs) \<or> rx_search fence_rx (left @ [c]) cs)"
  by (simp add: fence_rx_def)

lemma rx_search_fence_left: "rx_search fence_rx left t = rx_search fence_rx left' t"
proof (induction t arbitrary: left left')
  case Nil
  then show ?case by (simp add: fence_rx_def backticks_def)
next
  case (Cons c cs)
  show ?case
    unfolding rx_search_fence_Cons using Cons.IH [of "left @ [c]" "left' @ [c]"] by simp
qed

lemma remove_fence_Cons:
  "remove_all fence_rx left (c # cs) =
     (if prefix backticks (c # cs)
      then remove_all fence_rx (left @ take (3 + length (takeWhile is_letter (drop 3 (c # cs)))) (c # cs))
             (drop (3 + length (takeWhile is_letter (drop 3 (c # cs)))) (c # cs))
      else c # remove_all fence_rx (left @ [c]) cs)"
  by (simp add: fence_rx_def)

lemma remove_fence_head:
  "remove_all fence_rx left t = x # u \<Longrightarrow> x = CHR 0x60 \<Longrightarrow> \<exists>t'. t = CHR 0x60 # t'"
proof (cases t)
  case Nil
  assume "remove_all fence_rx left t = x # u"
  then show ?thesis using Nil by simp
next
  case (Cons c cs)
  assume "remove_all fence_rx left t = x # u" and "x = CHR 0x60"
  then show ?thesis
    unfolding Cons remove_fence_Cons
    by (auto simp: backticks_def split: if_splits)
qed

lemma remove_fence_head2:
  assumes "remove_all fence_rx left t = CHR 0x60 # CHR 0x60 # u"
  shows "\<exists>t'. t = CHR 0x60 # CHR 0x60 # t'"
proof -
  obtain cs where t: "t = CHR 0x60 # cs"
    using remove_fence_head [OF assms] by auto
  show ?thesis
  proof (cases "prefix backticks t")
    case True
    then show ?thesis by (auto simp: backticks_def t prefix_def)
  next
    case False
    then have "remove_all fence_rx (left @ [CHR 0x60]) cs = CHR 0x60 # u"
      using assms unfolding t remove_fence_Cons by simp
    from remove_fence_head [OF this] show ?thesis by (auto simp: t)
  qed
qed

lemma remove_fence_no_fence: "\<not> rx_search fence_rx left' (remove_all fence_rx left t)"
proof (induction t arbitrary: left left' rule: length_induct)
  case (1 t)
  show ?case
  proof (cases t)
    case Nil
    then show ?thesis by (simp add: fence_rx_def backticks_def)
  next
    case (Cons c cs)
    show ?thesis
    proof (cases "prefix backticks (c # cs)")
      case True
      have "length (drop (3 + length (takeWhile is_letter (drop 3 (c # cs)))) (c # cs)) < length t"
        by (simp add: Cons)
      with 1 show ?thesis
        unfolding Cons remove_fence_Cons using True by simp
    next
      case False
      define u where "u = remove_all fence_rx (left @ [c]) cs"
      have rest: "\<not> rx_search fence_rx (left' @ [c]) u"
        unfolding u_def using 1 by (simp add: Cons)
      have front: "\<not> prefix backticks (c # u)"
      proof
        assume "prefix backticks (c # u)"
        then obtain v where c: "c = CHR 0x60" and u: "u = CHR 0x60 # CHR 0x60 # v"
          by (auto simp: backticks_def prefix_def)
        from remove_fence_head2 [OF u [unfolded u_def]] obtain t' where "cs = CHR 0x60 # CHR 0x60 # t'"
          by auto
        with c have "prefix backticks (c # cs)"
          by (simp add: backticks_def)
        with False show False by simp
      qed
      show ?thesis
        unfolding Cons remove_fence_Cons using False rest front
        by (simp add: rx_search_fence_Cons u_def del: rx_search.simps)
    qed
  qed
qed

lemma strip_shell_without_newline:
  assumes "newline \<notin> set t"
  shows "stripRegexPatterns t shellCodeExclusions = remove_all fence_rx [] t"
proof -
  have "newline \<notin> set (remove_all fence_rx [] t)"
    using assms set_remove_all [of fence_rx "[]" t] by auto
  then show ?thesis
    using assms
    by (simp add: stripRegexPatterns_def shellCodeExclusions_def strip_one_def
        remove_fence_newline_absent remove_all_literal_absent)
qed

section \<open>A character that is stripped never reaches the output\<close>

lemma processPayload_clean:
  assumes "Some (Literal [ch]) \<in> set (excluded cfg)"
    and "\<forall>v w t. stripNonString cfg v (excluded cfg) = Some w \<longrightarrow>
           js_string (numberString cfg) w = Some t \<longrightarrow> ch \<notin> set t"
    and "ch \<notin> set (data s)"
    and "case resolved s of None \<Rightarrow> True | Some v \<Rightarrow> ch \<notin> set v"
  shows "ch \<notin> set (data (snd (processPayload cfg payload s))) \<and>
         (case resolved (snd (processPayload cfg payload s)) of
            None \<Rightarrow> True | Some v \<Rightarrow> ch \<notin> set v)"
proof -
  have emitted: "ch \<notin> set (data (snd (emit cfg content s'))) \<and>
      resolved (snd (emit cfg content s')) = resolved s'"
    if "ch \<notin> set (data s')" for content s'
    using that assms(2) strip_removes_char [OF assms(1)]
    by (auto simp: emit_def stripContent_def writer_def split: option.splits json.splits)
  show ?thesis
    using assms(3,4) emitted
    by (auto simp: processPayload_def finish_def cleanup_def writer_def resolve_def Let_def
        split: if_splits option.splits)
qed

lemma processPayloads_clean:
  assumes "Some (Literal [ch]) \<in> set (excluded cfg)"
    and "\<forall>v w t. stripNonString cfg v (excluded cfg) = Some w \<longrightarrow>
           js_string (numberString cfg) w = Some t \<longrightarrow> ch \<notin> set t"
    and "ch \<notin> set (data s)"
    and "case resolved s of None \<Rightarrow> True | Some v \<Rightarrow> ch \<notin> set v"
  shows "ch \<notin> set (data (snd (processPayloads cfg payloads s))) \<and>
         (case resolved (snd (processPayloads cfg payloads s)) of
            None \<Rightarrow> True | Some v \<Rightarrow> ch \<notin> set v)"
  using assms(3,4)
proof (induction payloads arbitrary: s)
  case Nil
  then show ?case by simp
next
  case (Cons payload payloads)
  obtain c s1 where step: "processPayload cfg payload s = (c, s1)"
    by (cases "processPayload cfg payload s")
  have clean: "ch \<notin> set (data s1)" "case resolved s1 of None \<Rightarrow> True | Some v \<Rightarrow> ch \<notin> set v"
    using processPayload_clean [OF assms(1,2) Cons.prems, of payload] step by simp_all
  show ?case
    using Cons.IH [OF clean] clean step by (cases c) simp_all
qed

lemma onChunk_clean:
  assumes "Some (Literal [ch]) \<in> set (excluded cfg)"
    and "\<forall>v w t. stripNonString cfg v (excluded cfg) = Some w \<longrightarrow>
           js_string (numberString cfg) w = Some t \<longrightarrow> ch \<notin> set t"
    and "ch \<notin> set (data s)"
    and "case resolved s of None \<Rightarrow> True | Some v \<Rightarrow> ch \<notin> set v"
  shows "ch \<notin> set (data (onChunk cfg chunk s)) \<and>
         (case resolved (onChunk cfg chunk s) of None \<Rightarrow> True | Some v \<Rightarrow> ch \<notin> set v)"
  using processPayloads_clean [OF assms, of "split_frames chunk"]
  by (auto simp: onChunk_def split: prod.splits ctl.splits)

lemma invokes_clean:
  assumes "ch \<notin> set (data s)"
    and "case resolved s of None \<Rightarrow> True | Some v \<Rightarrow> ch \<notin> set v"
  shows "ch \<notin> set (data (foldl (invoke cfg) s ls)) \<and>
         (case resolved (foldl (invoke cfg) s ls) of None \<Rightarrow> True | Some v \<Rightarrow> ch \<notin> set v)"
  using assms
proof (induction ls arbitrary: s)
  case Nil
  then show ?case by simp
next
  case (Cons l ls)
  have "ch \<notin> set (data (invoke cfg s l))"
    "case resolved (invoke cfg s l) of None \<Rightarrow> True | Some v \<Rightarrow> ch \<notin> set v"
    using Cons.prems
    by (cases l; auto simp: invoke_def writer_def resolve_def Let_def split: option.splits)+
  from Cons.IH [OF this] show ?case by simp
qed

lemma handle_clean:
  assumes "Some (Literal [ch]) \<in> set (excluded cfg)"
    and "\<forall>v w t. stripNonString cfg v (excluded cfg) = Some w \<longrightarrow>
           js_string (numberString cfg) w = Some t \<longrightarrow> ch \<notin> set t"
    and "ch \<notin> set (data s)"
    and "case resolved s of None \<Rightarrow> True | Some v \<Rightarrow> ch \<notin> set v"
  shows "ch \<notin> set (data (handle cfg s ev)) \<and>
         (case resolved (handle cfg s ev) of None \<Rightarrow> True | Some v \<Rightarrow> ch \<notin> set v)"
proof (cases ev)
  case (Chunk chunk)
  then show ?thesis
    using assms onChunk_clean [OF assms, of chunk] by (simp add: handle_def)
next
  case End
  then show ?thesis
    using assms
    by (auto simp: handle_def onEnd_def cleanup_def resolve_def Let_def split: option.splits)
next
  case Fail
  then show ?thesis using assms by (simp add: handle_def)
next
  case (Keypress k)
  then show ?thesis using assms by (simp add: handle_def)
next
  case Sigint
  then show ?thesis
    using assms invokes_clean [OF assms(3,4), of cfg "sigintListeners s"]
    by (simp add: handle_def)
qed

lemma readData_clean:
  assumes "Some (Literal [ch]) \<in> set (excluded cfg)"
    and "\<forall>v w t. stripNonString cfg v (excluded cfg) = Some w \<longrightarrow>
           js_string (numberString cfg) w = Some t \<longrightarrow> ch \<notin> set t"
  shows "ch \<notin> set (data (readData cfg priors events)) \<and>
         (case resolved (readData cfg priors events) of None \<Rightarrow> True | Some v \<Rightarrow> ch \<notin> set v)"
proof -
  have "ch \<notin> set (data (foldl (handle cfg) s events)) \<and>
        (case resolved (foldl (handle cfg) s events) of None \<Rightarrow> True | Some v \<Rightarrow> ch \<notin> set v)"
    if "ch \<notin> set (data s)" "case resolved s of None \<Rightarrow> True | Some v \<Rightarrow> ch \<notin> set v" for s
    using that
  proof (induction events arbitrary: s)
    case Nil
    then show ?case by simp
  next
    case (Cons ev events)
    have "ch \<notin> set (data (handle cfg s ev))"
      "case resolved (handle cfg s ev) of None \<Rightarrow> True | Some v \<Rightarrow> ch \<notin> set v"
      using handle_clean [OF assms Cons.prems, of ev] by simp_all
    from Cons.IH [OF this] show ?case by simp
  qed
  then show ?thesis
    by (simp add: readData_def start_def Let_def)
qed

lemma started_step:
  "dataStart s \<Longrightarrow> \<not> stopTextStream s \<Longrightarrow> includes_str ''[DONE]'' payload = False \<Longrightarrow>
   prefix ''data:'' payload \<Longrightarrow> parseContent cfg payload = JStr fragment \<Longrightarrow> fragment \<noteq> [] \<Longrightarrow>
   processPayload cfg payload s
   = (Next, writer (stripRegexPatterns fragment (excluded cfg))
              (s\<lparr>data := data s @ stripRegexPatterns fragment (excluded cfg)\<rparr>))"
  by (simp add: processPayload_def emit_def truthy_def stripContent_def Let_def)

text \<open>
  C3 as stated fails, in three ways. With \<open>shellCodeExclusions\<close>, after the opening fence
  has started emission, the fragments of two backticks and of one backtick pass the
  stripping unchanged, and the promise is resolved with three backticks, which the
  second pattern matches. A single fragment does the same: from two backticks, a newline
  and one backtick the last pattern removes the newline, after the fences have been
  looked for. And with the string \<open>ab\<close> as the pattern, the fragment \<open>aabb\<close> leaves \<open>ab\<close>.
\<close>

theorem split_pattern_survives:
  \<open>resolved
     (readData shell []
        [Chunk (frame payload_fence), Chunk (frame payload_two_ticks),
         Chunk (frame payload_one_tick), Chunk (frame payload_done)])
   = Some ''```'' \<and>
   rx_search fence_rx [] ''```'' = True \<and>
   resolved
     (readData shell []
        [Chunk (frame payload_fence), Chunk (frame payload_joined), Chunk (frame payload_done)])
   = Some ''```'' \<and>
   resolved (readData literal_ab [] [Chunk (frame payload_aabb), Chunk (frame payload_done)])
   = Some ''ab'' \<and>
   rx_search (literal_rx ''ab'') [] ''ab'' = True\<close>
  by code_simp

text \<open>
  C3, amended. Once emission has started, a non-empty text fragment is appended to the
  accumulated output, and passed to the writer, after one pass per exclusion pattern
  over that fragment alone, in the order of the list; a pass for a regular expression
  cuts out the leftmost match and goes on behind it. A pattern that is a string of one
  character therefore occurs nowhere in the accumulated output nor in the text the
  promise is resolved with, provided the helper leaves it in no value that is no string
  either; with \<open>shellCodeExclusions\<close> the output has no newline and no match of the fence
  with its newline, and a fragment without a newline is stripped to a text without
  three backticks in a row, which the second pattern does not match.
\<close>

theorem fragments_stripped_one_by_one:
  "(dataStart s \<and> \<not> stopTextStream s \<and> includes_str ''[DONE]'' payload = False \<and>
    prefix ''data:'' payload \<and> parseContent cfg payload = JStr fragment \<and> fragment \<noteq> [] \<longrightarrow>
      processPayload cfg payload s
      = (Next, writer (stripRegexPatterns fragment (excluded cfg))
                 (s\<lparr>data := data s @ stripRegexPatterns fragment (excluded cfg)\<rparr>))) \<and>
   ((\<forall>i. i < length a \<longrightarrow> r (take i a) (drop i a @ m @ b) = None) \<and>
    r a (m @ b) = Some (length m) \<and> m \<noteq> [] \<longrightarrow>
      stripRegexPatterns (a @ m @ b) [Some (RegExp r)] = a @ remove_all r (a @ m) b) \<and>
   (Some (Literal [ch]) \<in> set (excluded cfg) \<and>
    (\<forall>v w t. stripNonString cfg v (excluded cfg) = Some w \<longrightarrow>
       js_string (numberString cfg) w = Some t \<longrightarrow> ch \<notin> set t) \<longrightarrow>
      ch \<notin> set (data (readData cfg priors events)) \<and>
      (\<forall>v. resolved (readData cfg priors events) = Some v \<longrightarrow> ch \<notin> set v)) \<and>
   (excluded cfg = shellCodeExclusions \<and>
    (\<forall>v w t. stripNonString cfg v (excluded cfg) = Some w \<longrightarrow>
       js_string (numberString cfg) w = Some t \<longrightarrow> newline \<notin> set t) \<longrightarrow>
      newline \<notin> set (data (readData cfg priors events)) \<and>
      \<not> rx_search fence_newline_rx [] (data (readData cfg priors events)) \<and>
      (\<forall>v. resolved (readData cfg priors events) = Some v \<longrightarrow>
           newline \<notin> set v \<and> \<not> rx_search fence_newline_rx [] v)) \<and>
   (newline \<notin> set u \<longrightarrow> \<not> rx_search fence_rx [] (stripRegexPatterns u shellCodeExclusions))"
proof -
  have cut: "stripRegexPatterns (a @ m @ b) [Some (RegExp r)] = a @ remove_all r (a @ m) b"
    if "\<forall>i. i < length a \<longrightarrow> r (take i a) (drop i a @ m @ b) = None"
      "r a (m @ b) = Some (length m)" "m \<noteq> []"
    using remove_all_leftmost [of a r "[]" m b] that
    by (simp add: stripRegexPatterns_def strip_one_def)
  have char_case: "ch \<notin> set (data (readData cfg priors events)) \<and>
      (\<forall>v. resolved (readData cfg priors events) = Some v \<longrightarrow> ch \<notin> set v)"
    if "Some (Literal [ch]) \<in> set (excluded cfg)"
      "\<forall>v w t. stripNonString cfg v (excluded cfg) = Some w \<longrightarrow>
         js_string (numberString cfg) w = Some t \<longrightarrow> ch \<notin> set t"
    using readData_clean [OF that, of priors events] by (auto split: option.splits)
  have shell_case: "newline \<notin> set (data (readData cfg priors events)) \<and>
      \<not> rx_search fence_newline_rx [] (data (readData cfg priors events)) \<and>
      (\<forall>v. resolved (readData cfg priors events) = Some v \<longrightarrow>
           newline \<notin> set v \<and> \<not> rx_search fence_newline_rx [] v)"
    if "excluded cfg = shellCodeExclusions"
      "\<forall>v w t. stripNonString cfg v (excluded cfg) = Some w \<longrightarrow>
         js_string (numberString cfg) w = Some t \<longrightarrow> newline \<notin> set t"
  proof -
    have "Some (Literal [newline]) \<in> set (excluded cfg)"
      using that(1) by (simp add: shellCodeExclusions_def)
    from readData_clean [OF this that(2), of priors events] show ?thesis
      by (auto split: option.splits dest: rx_search_fence_newline)
  qed
  have fence: "\<not> rx_search fence_rx [] (stripRegexPatterns u shellCodeExclusions)"
    if "newline \<notin> set u"
    using strip_shell_without_newline [OF that] remove_fence_no_fence [of "[]" "[]" u] by simp
  show ?thesis
    using started_step [of s payload cfg fragment] cut char_case shell_case fence
    by blast
qed

theorem fragments_stripped_one_by_one_witness:
  \<open>dataStart (readData shell [] [Chunk (frame payload_fence)]) \<and>
   \<not> stopTextStream (readData shell [] [Chunk (frame payload_fence)]) \<and>
   includes_str ''[DONE]'' payload_ls_newline = False \<and>
   prefix ''data:'' payload_ls_newline \<and>
   parseContent shell payload_ls_newline = JStr (''ls'' @ [newline]) \<and>
   data (snd (processPayload shell payload_ls_newline
                (readData shell [] [Chunk (frame payload_fence)]))) = ''ls'' \<and>
   fence_rx ''x'' (''```sh'' @ '' y'') = Some (length ''```sh'') \<and>
   stripRegexPatterns (''x'' @ ''```sh'' @ '' y'') [Some (RegExp fence_rx)] = ''x y'' \<and>
   Some (Literal [newline]) \<in> set (excluded shell) \<and>
   excluded shell = shellCodeExclusions \<and>
   newline \<notin> set (data (readData shell []
                          [Chunk (frame payload_fence), Chunk (frame payload_ls_newline)])) \<and>
   newline \<notin> set ''```sh ls'' \<and>
   stripRegexPatterns ''```sh ls'' shellCodeExclusions = '' ls'' \<and>
   \<not> rx_search fence_rx [] '' ls''\<close>
proof -
  have started: "dataStart (readData shell [] [Chunk (frame payload_fence)])"
    and running: "\<not> stopTextStream (readData shell [] [Chunk (frame payload_fence)])"
    and empty: "data (readData shell [] [Chunk (frame payload_fence)]) = []"
    by code_simp+
  have payload: "includes_str ''[DONE]'' payload_ls_newline = False"
    "prefix ''data:'' payload_ls_newline"
    "parseContent shell payload_ls_newline = JStr (''ls'' @ [newline])"
    "''ls'' @ [newline] \<noteq> []"
    by code_simp+
  have stripped: "stripRegexPatterns (''ls'' @ [newline]) (excluded shell) = ''ls''"
    by code_simp
  have patterns: "Some (Literal [newline]) \<in> set (excluded shell)"
    "excluded shell = shellCodeExclusions"
    by (simp_all add: shell_def shellCodeExclusions_def)
  have helper: "\<forall>v w t. stripNonString shell v (excluded shell) = Some w \<longrightarrow>
      js_string (numberString shell) w = Some t \<longrightarrow> newline \<notin> set t"
    by (simp add: shell_def plain_def shellCodeExclusions_def)
  have before: \<open>\<forall>i. i < length ''x'' \<longrightarrow>
      fence_rx (take i ''x'') (drop i ''x'' @ ''```sh'' @ '' y'') = None\<close>
    by (simp add: fence_rx_def backticks_def)
  have here: \<open>fence_rx ''x'' (''```sh'' @ '' y'') = Some (length ''```sh'')\<close>
    by code_simp
  have cut: \<open>''x'' @ remove_all fence_rx (''x'' @ ''```sh'') '' y'' = ''x y''\<close>
    by code_simp
  have plain_text: \<open>newline \<notin> set ''```sh ls''\<close>
    \<open>stripRegexPatterns ''```sh ls'' shellCodeExclusions = '' ls''\<close>
    by code_simp+
  note facts = fragments_stripped_one_by_one
        [of "readData shell [] [Chunk (frame payload_fence)]" payload_ls_newline shell
            "''ls'' @ [newline]" "''x''" fence_rx \<open>''```sh''\<close> "'' y''" newline "[]"
            "[Chunk (frame payload_fence), Chunk (frame payload_ls_newline)]" \<open>''```sh ls''\<close>]
  have step: "processPayload shell payload_ls_newline
                (readData shell [] [Chunk (frame payload_fence)])
              = (Next, writer (stripRegexPatterns (''ls'' @ [newline]) (excluded shell))
                   (readData shell [] [Chunk (frame payload_fence)]
                      \<lparr>data := data (readData shell [] [Chunk (frame payload_fence)]) @
                         stripRegexPatterns (''ls'' @ [newline]) (excluded shell)\<rparr>))"
    by (rule mp [OF facts [THEN conjunct1]]) (intro conjI started running payload)
  have c1: "data (snd (processPayload shell payload_ls_newline
                (readData shell [] [Chunk (frame payload_fence)]))) = ''ls''"
    unfolding step stripped empty by (simp add: writer_def)
  have \<open>stripRegexPatterns (''x'' @ ''```sh'' @ '' y'') [Some (RegExp fence_rx)]
        = ''x'' @ remove_all fence_rx (''x'' @ ''```sh'') '' y''\<close>
    by (rule mp [OF facts [THEN conjunct2, THEN conjunct1]]) (intro conjI before here; simp)
  then have c2:
    \<open>stripRegexPatterns (''x'' @ ''```sh'' @ '' y'') [Some (RegExp fence_rx)] = ''x y''\<close>
    unfolding cut .
  have "newline \<notin> set (data (readData shell []
                          [Chunk (frame payload_fence), Chunk (frame payload_ls_newline)])) \<and>
        (\<forall>v. resolved (readData shell []
                          [Chunk (frame payload_fence), Chunk (frame payload_ls_newline)]) = Some v
             \<longrightarrow> newline \<notin> set v)"
    by (rule mp [OF facts [THEN conjunct2, THEN conjunct2, THEN conjunct1]])
      (intro conjI patterns(1) helper)
  then have c3: "newline \<notin> set (data (readData shell []
                          [Chunk (frame payload_fence), Chunk (frame payload_ls_newline)]))"
    by (rule conjunct1)
  have \<open>\<not> rx_search fence_rx [] (stripRegexPatterns ''```sh ls'' shellCodeExclusions)\<close>
    by (rule mp [OF facts [THEN conjunct2, THEN conjunct2, THEN conjunct2, THEN conjunct2]])
      (rule plain_text(1))
  then have c4: \<open>\<not> rx_search fence_rx [] '' ls''\<close>
    unfolding plain_text(2) .
  show ?thesis
    by (intro conjI started running payload(1,2,3) c1 here c2 patterns c3 plain_text c4)
qed

section \<open>A payload that is no JSON\<close>








end
